theory Spec2Isabelle
  imports Complex_Main
begin

section \<open>JavaScript values used by the interaction scripts\<close>

text \<open>
  The scripts under \<^verbatim>\<open>static/js/interaction\<close> work on JSON data and on the text of
  form inputs. A value is \<^verbatim>\<open>undefined\<close> (an absent property), \<^verbatim>\<open>null\<close>, a boolean, a
  number or a string; arrays and objects as metric values are left out. Numbers are IEEE
  doubles in the browser; here a number is \<open>NaN\<close>, an infinity or an exact real, so
  rounding is not modelled. Strings are lists of bytes, which agrees with JavaScript on
  ASCII text: white space, letter case and the order of strings are those of ASCII.
\<close>

datatype jsnum = NaN | NegInf | Fin real | PosInf

datatype jsval = JUndefined | JNull | JBool bool | JNum jsnum | JStr string

fun js_isNaN :: "jsnum \<Rightarrow> bool" where
  "js_isNaN NaN = True"
| "js_isNaN _ = False"

text \<open>The binary \<^verbatim>\<open>-\<close> on numbers.\<close>

fun js_sub :: "jsnum \<Rightarrow> jsnum \<Rightarrow> jsnum" where
  "js_sub NaN _ = NaN"
| "js_sub _ NaN = NaN"
| "js_sub PosInf PosInf = NaN"
| "js_sub NegInf NegInf = NaN"
| "js_sub PosInf _ = PosInf"
| "js_sub NegInf _ = NegInf"
| "js_sub (Fin a) PosInf = NegInf"
| "js_sub (Fin a) NegInf = PosInf"
| "js_sub (Fin a) (Fin b) = Fin (a - b)"

text \<open>The binary \<^verbatim>\<open>*\<close> on numbers.\<close>

fun js_mul :: "jsnum \<Rightarrow> jsnum \<Rightarrow> jsnum" where
  "js_mul NaN _ = NaN"
| "js_mul _ NaN = NaN"
| "js_mul (Fin a) (Fin b) = Fin (a * b)"
| "js_mul (Fin a) PosInf = (if a = 0 then NaN else if 0 < a then PosInf else NegInf)"
| "js_mul (Fin a) NegInf = (if a = 0 then NaN else if 0 < a then NegInf else PosInf)"
| "js_mul PosInf (Fin b) = (if b = 0 then NaN else if 0 < b then PosInf else NegInf)"
| "js_mul NegInf (Fin b) = (if b = 0 then NaN else if 0 < b then NegInf else PosInf)"
| "js_mul PosInf PosInf = PosInf"
| "js_mul NegInf NegInf = PosInf"
| "js_mul PosInf NegInf = NegInf"
| "js_mul NegInf PosInf = NegInf"

text \<open>Numeric \<^verbatim>\<open><=\<close> and \<^verbatim>\<open><\<close>: false as soon as one side is \<open>NaN\<close>.\<close>

fun num_le :: "jsnum \<Rightarrow> jsnum \<Rightarrow> bool" where
  "num_le NaN _ = False"
| "num_le _ NaN = False"
| "num_le NegInf _ = True"
| "num_le _ PosInf = True"
| "num_le PosInf _ = False"
| "num_le _ NegInf = False"
| "num_le (Fin a) (Fin b) = (a \<le> b)"

fun num_lt :: "jsnum \<Rightarrow> jsnum \<Rightarrow> bool" where
  "num_lt NaN _ = False"
| "num_lt _ NaN = False"
| "num_lt PosInf _ = False"
| "num_lt _ NegInf = False"
| "num_lt NegInf _ = True"
| "num_lt _ PosInf = True"
| "num_lt (Fin a) (Fin b) = (a < b)"

subsection \<open>Characters and strings\<close>

definition code_of :: "char \<Rightarrow> nat" where
  "code_of c = of_char c"

definition is_ws :: "char \<Rightarrow> bool" where
  "is_ws c = (code_of c = 9 \<or> code_of c = 10 \<or> code_of c = 11 \<or> code_of c = 12
     \<or> code_of c = 13 \<or> code_of c = 32)"

definition is_digit :: "char \<Rightarrow> bool" where
  "is_digit c = (48 \<le> code_of c \<and> code_of c \<le> 57)"

definition is_letter :: "char \<Rightarrow> bool" where
  "is_letter c = ((65 \<le> code_of c \<and> code_of c \<le> 90) \<or> (97 \<le> code_of c \<and> code_of c \<le> 122))"

text \<open>\<^verbatim>\<open>String.prototype.toLowerCase\<close> and \<^verbatim>\<open>trim\<close>, on ASCII.\<close>

definition lower_char :: "char \<Rightarrow> char" where
  "lower_char c = (if 65 \<le> code_of c \<and> code_of c \<le> 90 then char_of (code_of c + 32) else c)"

definition toLowerCase :: "string \<Rightarrow> string" where
  "toLowerCase s = map lower_char s"

definition trimStart :: "string \<Rightarrow> string" where
  "trimStart s = dropWhile is_ws s"

definition trim :: "string \<Rightarrow> string" where
  "trim s = rev (dropWhile is_ws (rev (dropWhile is_ws s)))"

text \<open>\<^verbatim>\<open>a < b\<close> on two strings: lexicographic on the code units.\<close>

fun str_lt :: "string \<Rightarrow> string \<Rightarrow> bool" where
  "str_lt [] [] = False"
| "str_lt [] (y # ys) = True"
| "str_lt (x # xs) [] = False"
| "str_lt (x # xs) (y # ys) = (code_of x < code_of y \<or> (x = y \<and> str_lt xs ys))"

text \<open>\<^verbatim>\<open>s.split('_')\<close>.\<close>

fun split_underscore :: "string \<Rightarrow> string list" where
  "split_underscore [] = [[]]"
| "split_underscore (c # cs) =
     (if c = CHR ''_'' then [] # split_underscore cs
      else (case split_underscore cs of
              w # ws \<Rightarrow> (c # w) # ws
            | [] \<Rightarrow> [[c]]))"

subsection \<open>Reading numbers from text\<close>

definition digit_of :: "char \<Rightarrow> nat option" where
  "digit_of c =
     (if 48 \<le> code_of c \<and> code_of c \<le> 57 then Some (code_of c - 48)
      else if 97 \<le> code_of c \<and> code_of c \<le> 122 then Some (code_of c - 87)
      else if 65 \<le> code_of c \<and> code_of c \<le> 90 then Some (code_of c - 55)
      else None)"

definition is_radix_digit :: "nat \<Rightarrow> char \<Rightarrow> bool" where
  "is_radix_digit r c = (case digit_of c of Some d \<Rightarrow> d < r | None \<Rightarrow> False)"

definition digits_value :: "nat \<Rightarrow> string \<Rightarrow> int" where
  "digits_value r ds =
     foldl (\<lambda>acc c. acc * int r + (case digit_of c of Some d \<Rightarrow> int d | None \<Rightarrow> 0)) 0 ds"

definition strip_sign :: "string \<Rightarrow> bool \<times> string" where
  "strip_sign s =
     (case s of
        [] \<Rightarrow> (False, [])
      | c # r \<Rightarrow> if c = CHR ''-'' then (True, r) else if c = CHR ''+'' then (False, r) else (False, s))"

text \<open>
  \<^verbatim>\<open>parseInt(s)\<close> without a radix: leading white space is skipped, a sign is read, a
  \<^verbatim>\<open>0x\<close> prefix selects base 16, and the longest run of digits is the value; \<open>None\<close> is
  \<open>NaN\<close>. The value is an exact integer.
\<close>

definition parseInt :: "string \<Rightarrow> int option" where
  "parseInt s =
     (let (neg, s2) = strip_sign (trimStart s);
          hex = (case s2 of
                   a # b # r \<Rightarrow> a = CHR ''0'' \<and> (b = CHR ''x'' \<or> b = CHR ''X'')
                 | _ \<Rightarrow> False);
          radix = (if hex then 16 else 10);
          s3 = (if hex then drop 2 s2 else s2);
          ds = takeWhile (is_radix_digit radix) s3
      in if ds = [] then None
         else Some ((if neg then - 1 else 1) * digits_value radix ds))"

text \<open>The exponent part \<^verbatim>\<open>e[+-]digits\<close> of a decimal literal, with the rest of the text.\<close>

definition exponent_prefix :: "string \<Rightarrow> (int \<times> string) option" where
  "exponent_prefix s =
     (case s of
        [] \<Rightarrow> None
      | c # r \<Rightarrow>
          if c = CHR ''e'' \<or> c = CHR ''E'' then
            (let (neg, r2) = strip_sign r; ds = takeWhile is_digit r2
             in if ds = [] then None
                else Some ((if neg then - 1 else 1) * digits_value 10 ds, dropWhile is_digit r2))
          else None)"

definition scale10 :: "real \<Rightarrow> int \<Rightarrow> real" where
  "scale10 m e = (if 0 \<le> e then m * 10 ^ nat e else m / 10 ^ nat (- e))"

text \<open>The longest prefix that is an unsigned decimal literal, with the rest of the text.\<close>

definition decimal_prefix :: "string \<Rightarrow> (real \<times> string) option" where
  "decimal_prefix s =
     (let ip = takeWhile is_digit s;
          r1 = dropWhile is_digit s;
          dot = (case r1 of [] \<Rightarrow> False | c # _ \<Rightarrow> c = CHR ''.'');
          fp = (if dot then takeWhile is_digit (tl r1) else []);
          r2 = (if dot then dropWhile is_digit (tl r1) else r1)
      in if ip = [] \<and> fp = [] then None
         else
           (let m = of_int (digits_value 10 ip) + of_int (digits_value 10 fp) / 10 ^ length fp
            in case exponent_prefix r2 of
                 None \<Rightarrow> Some (m, r2)
               | Some (e, r3) \<Rightarrow> Some (scale10 m e, r3)))"

definition signed_prefix :: "string \<Rightarrow> (jsnum \<times> string) option" where
  "signed_prefix s =
     (let (neg, r) = strip_sign s
      in if take 8 r = ''Infinity'' then Some (if neg then NegInf else PosInf, drop 8 r)
         else (case decimal_prefix r of
                 None \<Rightarrow> None
               | Some (m, r2) \<Rightarrow> Some (Fin (if neg then - m else m), r2)))"

text \<open>\<^verbatim>\<open>parseFloat(s)\<close>: the longest decimal literal after leading white space.\<close>

definition parseFloat :: "string \<Rightarrow> jsnum" where
  "parseFloat s = (case signed_prefix (trimStart s) of None \<Rightarrow> NaN | Some (v, _) \<Rightarrow> v)"

text \<open>Literals with a \<^verbatim>\<open>0x\<close>, \<^verbatim>\<open>0o\<close> or \<^verbatim>\<open>0b\<close> prefix, as \<^verbatim>\<open>Number\<close> reads them.\<close>

definition prefixed_literal :: "string \<Rightarrow> int option" where
  "prefixed_literal s =
     (case s of
        a # b # r \<Rightarrow>
          (let radix = (if b = CHR ''x'' \<or> b = CHR ''X'' then 16
                        else if b = CHR ''o'' \<or> b = CHR ''O'' then 8
                        else if b = CHR ''b'' \<or> b = CHR ''B'' then 2 else 0)
           in if a = CHR ''0'' \<and> radix \<noteq> 0 \<and> r \<noteq> [] \<and> list_all (is_radix_digit radix) r
              then Some (digits_value radix r) else None)
      | _ \<Rightarrow> None)"

text \<open>\<^verbatim>\<open>Number(s)\<close> on a string: the whole trimmed text must be a numeric literal.\<close>

definition StringToNumber :: "string \<Rightarrow> jsnum" where
  "StringToNumber s =
     (let t = trim s
      in if t = [] then Fin 0
         else (case prefixed_literal t of
                 Some n \<Rightarrow> Fin (of_int n)
               | None \<Rightarrow>
                   (case signed_prefix t of
                      Some (v, []) \<Rightarrow> v
                    | _ \<Rightarrow> NaN)))"

fun js_Number :: "jsval \<Rightarrow> jsnum" where
  "js_Number JUndefined = NaN"
| "js_Number JNull = Fin 0"
| "js_Number (JBool b) = Fin (if b then 1 else 0)"
| "js_Number (JNum n) = n"
| "js_Number (JStr s) = StringToNumber s"

text \<open>\<^verbatim>\<open>a === b\<close>, \<^verbatim>\<open>a >= b\<close> and \<^verbatim>\<open>a <= b\<close> on values.\<close>

fun js_strict_eq :: "jsval \<Rightarrow> jsval \<Rightarrow> bool" where
  "js_strict_eq JUndefined JUndefined = True"
| "js_strict_eq JNull JNull = True"
| "js_strict_eq (JBool a) (JBool b) = (a = b)"
| "js_strict_eq (JNum a) (JNum b) = (\<not> js_isNaN a \<and> \<not> js_isNaN b \<and> a = b)"
| "js_strict_eq (JStr a) (JStr b) = (a = b)"
| "js_strict_eq _ _ = False"

fun js_ge :: "jsval \<Rightarrow> jsval \<Rightarrow> bool" where
  "js_ge (JStr a) (JStr b) = (\<not> str_lt a b)"
| "js_ge x y = num_le (js_Number y) (js_Number x)"

fun js_le :: "jsval \<Rightarrow> jsval \<Rightarrow> bool" where
  "js_le (JStr a) (JStr b) = (\<not> str_lt b a)"
| "js_le x y = num_le (js_Number x) (js_Number y)"

section \<open>The park catalogue and the page state\<close>

text \<open>
  \<^verbatim>\<open>parks\<close> is the array of park objects that the page template injects; its elements
  are distinct objects, so a park is addressed by its index in the array and the array
  itself doubles as the object store. The metric properties read by \<^verbatim>\<open>p[dataKey]\<close>
  are kept as a map from the property name to a value (\<open>JUndefined\<close> where the property
  is absent). \<open>facilities\<close> is \<open>None\<close> where the property is absent or \<^verbatim>\<open>null\<close>,
  and \<open>displayRank\<close> is \<open>None\<close> until the ranking writes it.
\<close>

datatype site_id = IdNum int | IdStr string

record park =
  site_id :: site_id
  name :: string
  lat :: real
  lon :: real
  metrics :: "string \<Rightarrow> jsval"
  facilities :: "string list option"
  displayRank :: "nat option"

text \<open>An entry of the \<^verbatim>\<open>parks\<close> list in the answer of the search endpoint.\<close>

record match =
  m_site_id :: site_id
  m_name :: string
  m_distance :: real

datatype export_data = ExportParks "nat list" | ExportMatches "match list"

text \<open>
  The globals of \<^verbatim>\<open>config.js\<close> that the two functions read or write, with the
  catalogue and \<^verbatim>\<open>window.currentExportData\<close>. A marker is its position; the search
  circle is its centre and its radius in metres.
\<close>

record ui_state =
  parks :: "park list"
  currentExportData :: export_data
  userMarker :: "(jsnum \<times> jsnum) option"
  searchCircle :: "(jsnum \<times> jsnum \<times> jsnum) option"
  nearestMode :: bool

section \<open>ranking.js: applyRanking\<close>

datatype rank_outcome = SelectRankModal | EnterRankNumModal | NoDataToast | Ranked "nat list"

text \<open>\<^verbatim>\<open>p[dataKey] !== null && !isNaN(Number(p[dataKey]))\<close>\<close>

definition keep_valid :: "jsval \<Rightarrow> bool" where
  "keep_valid v = (v \<noteq> JNull \<and> \<not> js_isNaN (js_Number v))"

definition metric_of :: "park list \<Rightarrow> string \<Rightarrow> nat \<Rightarrow> jsval" where
  "metric_of ps k r = metrics (ps ! r) k"

text \<open>
  \<^verbatim>\<open>(a,b) => order === 'highest' ? b[dataKey] - a[dataKey] : a[dataKey] - b[dataKey]\<close>;
  \<open>order\<close> is \<open>None\<close> when the rank type has no second part.
\<close>

definition compare_parks :: "park list \<Rightarrow> string \<Rightarrow> string option \<Rightarrow> nat \<Rightarrow> nat \<Rightarrow> jsnum" where
  "compare_parks ps k order a b =
     (if order = Some ''highest''
      then js_sub (js_Number (metric_of ps k b)) (js_Number (metric_of ps k a))
      else js_sub (js_Number (metric_of ps k a)) (js_Number (metric_of ps k b)))"

text \<open>
  \<^verbatim>\<open>Array.prototype.sort\<close> with a comparator is stable; a comparator result that is
  \<open>NaN\<close> counts as 0, and a positive result puts the first argument behind the second.
  On the valid parks the comparator is a consistent order of their numbers, so the sorted
  array is the one stable sorted arrangement, which the insertion sort below computes.
\<close>

definition cmp_positive :: "jsnum \<Rightarrow> bool" where
  "cmp_positive v = num_lt (Fin 0) v"

fun js_insort :: "('a \<Rightarrow> 'a \<Rightarrow> jsnum) \<Rightarrow> 'a \<Rightarrow> 'a list \<Rightarrow> 'a list" where
  "js_insort cmp x [] = [x]"
| "js_insort cmp x (y # ys) =
     (if cmp_positive (cmp x y) then y # js_insort cmp x ys else x # y # ys)"

definition js_sort :: "('a \<Rightarrow> 'a \<Rightarrow> jsnum) \<Rightarrow> 'a list \<Rightarrow> 'a list" where
  "js_sort cmp xs = foldr (js_insort cmp) xs []"

definition valid_sorted :: "park list \<Rightarrow> string \<Rightarrow> string option \<Rightarrow> nat list" where
  "valid_sorted ps k order =
     js_sort (compare_parks ps k order)
       (filter (\<lambda>p. keep_valid (metric_of ps k p)) [0..<length ps])"


text \<open>The parallel entry logic: everything, or all parks at least as good as the cutoff.\<close>

definition within_cutoff :: "string option \<Rightarrow> jsval \<Rightarrow> jsval \<Rightarrow> bool" where
  "within_cutoff order v cutoffVal =
     (if order = Some ''highest'' then js_ge v cutoffVal else js_le v cutoffVal)"

definition select_top :: "park list \<Rightarrow> string \<Rightarrow> string option \<Rightarrow> int \<Rightarrow> nat list \<Rightarrow> nat list" where
  "select_top ps k order num valid =
     (if int (length valid) \<le> num then valid
      else (let cutoffVal = metric_of ps k (valid ! nat (num - 1))
            in filter (\<lambda>p. within_cutoff order (metric_of ps k p) cutoffVal) valid))"

text \<open>
  The rank calculation: one step of the \<^verbatim>\<open>forEach\<close> at position \<open>index\<close>, carrying
  \<^verbatim>\<open>currentRank\<close> and the park objects.
\<close>

definition rank_step :: "string \<Rightarrow> nat list \<Rightarrow> nat \<Rightarrow> nat \<times> park list \<Rightarrow> nat \<times> park list" where
  "rank_step k topResults index = (\<lambda>(currentRank, ps).
     (let p = topResults ! index;
          currentRank' =
            (if 0 < index \<and> \<not> js_strict_eq (metrics (ps ! p) k)
                                   (metrics (ps ! (topResults ! (index - 1))) k)
             then index + 1 else currentRank)
      in (currentRank', ps[p := (ps ! p)\<lparr>displayRank := Some currentRank'\<rparr>])))"

definition assign_ranks :: "string \<Rightarrow> nat list \<Rightarrow> park list \<Rightarrow> park list" where
  "assign_ranks k topResults ps =
     snd (fold (rank_step k topResults) [0..<length topResults] (1, ps))"

definition rank_field :: "string \<Rightarrow> string" where
  "rank_field type = hd (split_underscore type)"

definition rank_order :: "string \<Rightarrow> string option" where
  "rank_order type = (case split_underscore type of _ # ord # _ \<Rightarrow> Some ord | _ \<Rightarrow> None)"

definition dataKey :: "string \<Rightarrow> string" where
  "dataKey type = (if rank_field type = ''quantity'' then ''quantity_variety'' else rank_field type)"

text \<open>
  \<open>applyRanking st type numInput\<close>: \<open>type\<close> and \<open>numInput\<close> are the values of the
  \<^verbatim>\<open>rank-type\<close> and \<^verbatim>\<open>rank-number\<close> inputs. The result is what the user is shown and
  the state afterwards; \<open>Ranked\<close> carries \<^verbatim>\<open>topResults\<close>, each park by its index in
  \<^verbatim>\<open>parks\<close>. The body that \<^verbatim>\<open>setTimeout\<close> runs after 400 ms is part of the call.
  Icons, tool tips, pop-ups and the map view are not part of the state.
\<close>

definition applyRanking :: "ui_state \<Rightarrow> string \<Rightarrow> string \<Rightarrow> rank_outcome \<times> ui_state" where
  "applyRanking st type numInput =
     (let num = parseInt numInput
      in if type = [] then (SelectRankModal, st)
         else if numInput = [] \<or> (case num of None \<Rightarrow> True | Some n \<Rightarrow> n < 1)
           then (EnterRankNumModal, st\<lparr>currentExportData := ExportParks []\<rparr>)
         else
           (let n = (case num of None \<Rightarrow> 0 | Some n \<Rightarrow> n);
                st1 = st\<lparr>userMarker := None, searchCircle := None\<rparr>;
                valid = valid_sorted (parks st) (dataKey type) (rank_order type);
                topResults = select_top (parks st) (dataKey type) (rank_order type) n valid;
                st2 = st1\<lparr>currentExportData := ExportParks topResults\<rparr>
            in if topResults = [] then (NoDataToast, st2)
               else (Ranked topResults,
                     st2\<lparr>parks := assign_ranks (dataKey type) topResults (parks st)\<rparr>)))"

section \<open>nearby.js: applyLocationSearch\<close>

text \<open>\<^verbatim>\<open>/^[A-Z]{1,2}\d[A-Z\d]? ?\d[A-Z]{2}$/i\<close>, one function for each remaining part of the pattern.\<close>

definition pc_tail :: "string \<Rightarrow> bool" where
  "pc_tail s = (case s of [d, a, b] \<Rightarrow> is_digit d \<and> is_letter a \<and> is_letter b | _ \<Rightarrow> False)"

definition pc_space :: "string \<Rightarrow> bool" where
  "pc_space s = (pc_tail s \<or> (case s of c # r \<Rightarrow> c = CHR '' '' \<and> pc_tail r | [] \<Rightarrow> False))"

definition pc_optional :: "string \<Rightarrow> bool" where
  "pc_optional s =
     (pc_space s \<or> (case s of c # r \<Rightarrow> (is_letter c \<or> is_digit c) \<and> pc_space r | [] \<Rightarrow> False))"

definition pc_digit :: "string \<Rightarrow> bool" where
  "pc_digit s = (case s of c # r \<Rightarrow> is_digit c \<and> pc_optional r | [] \<Rightarrow> False)"

definition postcodeRegex :: "string \<Rightarrow> bool" where
  "postcodeRegex s =
     (case s of
        [] \<Rightarrow> False
      | c # r \<Rightarrow> is_letter c \<and>
          (pc_digit r \<or> (case r of c2 # r2 \<Rightarrow> is_letter c2 \<and> pc_digit r2 | [] \<Rightarrow> False)))"

text \<open>
  The body of the POST to the search endpoint. \<^verbatim>\<open>JSON.stringify\<close> writes a number
  that is not finite as \<^verbatim>\<open>null\<close>, which is \<open>None\<close> here.
\<close>

record request =
  req_facilities :: "string list"
  req_user_lat :: "real option"
  req_user_lon :: "real option"
  req_distance :: "real option"
  req_nearest_only :: bool

fun json_number :: "jsnum \<Rightarrow> real option" where
  "json_number (Fin x) = Some x"
| "json_number _ = None"

text \<open>
  A \<^verbatim>\<open>fetch\<close> with its \<^verbatim>\<open>json()\<close>: \<open>Failed\<close> when something is thrown before the
  data can be used (no connection, no JSON, no \<^verbatim>\<open>parks\<close> list in it), which ends in the
  \<^verbatim>\<open>catch\<close> block; otherwise the data.
\<close>

datatype 'a fetched = Failed | Fetched 'a

datatype search_outcome =
    EnterPostcodeModal | InvalidPostcodeModal | SelectFacilityModal
  | NotLocatedToast | SearchErrorToast | NoResultsModal | Found "match list"

text \<open>\<^verbatim>\<open>String(id)\<close> for a site id, which is a whole number or a string.\<close>

fun nat_digits :: "nat \<Rightarrow> string" where
  "nat_digits n =
     (if n < 10 then [char_of (48 + n)] else nat_digits (n div 10) @ [char_of (48 + n mod 10)])"

declare nat_digits.simps [simp del]

fun id_String :: "site_id \<Rightarrow> string" where
  "id_String (IdStr s) = s"
| "id_String (IdNum i) = (if i < 0 then CHR ''-'' # nat_digits (nat (- i)) else nat_digits (nat i))"

text \<open>\<^verbatim>\<open>parks.find(p => String(p.site_id) === String(match.site_id))\<close>\<close>

definition find_park :: "park list \<Rightarrow> site_id \<Rightarrow> park option" where
  "find_park ps sid = find (\<lambda>p. id_String (site_id p) = id_String sid) ps"

text \<open>The client-side filter (strict AND logic) on one entry of the answer.\<close>

definition has_facility :: "string list \<Rightarrow> string \<Rightarrow> bool" where
  "has_facility available req =
     (let reqNorm = trim (toLowerCase req)
      in list_ex (\<lambda>avail. trim (toLowerCase avail) = reqNorm) available)"

definition facility_match :: "park list \<Rightarrow> string list \<Rightarrow> match \<Rightarrow> bool" where
  "facility_match ps selectedFacilities m =
     (case find_park ps (m_site_id m) of
        None \<Rightarrow> False
      | Some fullPark \<Rightarrow>
          (case facilities fullPark of
             None \<Rightarrow> False
           | Some available \<Rightarrow> list_all (has_facility available) selectedFacilities))"

text \<open>The radius: \<^verbatim>\<open>rawDistance ? parseFloat(rawDistance) : 5.0\<close>\<close>

definition search_distance :: "string \<Rightarrow> jsnum" where
  "search_distance rawDistance = (if rawDistance \<noteq> [] then parseFloat rawDistance else Fin 5)"

definition search_request :: "ui_state \<Rightarrow> string list \<Rightarrow> jsnum \<Rightarrow> jsnum \<Rightarrow> jsnum \<Rightarrow> request" where
  "search_request st selectedFacilities userLat userLon distance =
     \<lparr>req_facilities = selectedFacilities,
      req_user_lat = json_number userLat,
      req_user_lon = json_number userLon,
      req_distance = (if nearestMode st then None else json_number distance),
      req_nearest_only = nearestMode st\<rparr>"

text \<open>Steps 5 and 6: the strict filter, and in nearest mode only the top result.\<close>

definition valid_matches :: "ui_state \<Rightarrow> string list \<Rightarrow> match list \<Rightarrow> match list" where
  "valid_matches st selectedFacilities result_parks =
     (let validMatches = filter (facility_match (parks st) selectedFacilities) result_parks
      in if nearestMode st \<and> 0 < length validMatches then [validMatches ! 0] else validMatches)"

text \<open>
  What follows the filter: the export data, then the no-results modal, or the markers, the
  circle and the toast. Leaflet's \<^verbatim>\<open>L.circle\<close> throws when the radius is \<open>NaN\<close>; this
  happens after the matches have been listed and ends in the \<^verbatim>\<open>catch\<close> block.
\<close>

definition show_matches ::
  "ui_state \<Rightarrow> jsnum \<Rightarrow> jsnum \<Rightarrow> jsnum \<Rightarrow> match list \<Rightarrow> search_outcome \<times> ui_state" where
  "show_matches st userLat userLon distance validMatches =
     (let st3 = st\<lparr>currentExportData := ExportMatches validMatches\<rparr>
      in if validMatches = [] then (NoResultsModal, st3)
         else if nearestMode st then (Found validMatches, st3)
         else if js_isNaN (js_mul distance (Fin 1000)) then (SearchErrorToast, st3)
         else (Found validMatches,
               st3\<lparr>searchCircle := Some (userLat, userLon, js_mul distance (Fin 1000))\<rparr>))"

text \<open>
  \<open>applyLocationSearch geocode backend st postcodeInput rawDistance selectedFacilities\<close>:
  \<open>geocode\<close> is the Nominatim lookup (it answers with latitude and longitude as text)
  and \<open>backend\<close> the search endpoint; both are outside this repository's scripts and are
  parameters. The result is what the user is shown, the state afterwards, and the request
  that was posted to the search endpoint, if one was. Leaflet's \<^verbatim>\<open>L.marker\<close> throws
  when a coordinate is \<open>NaN\<close>, which ends in the \<^verbatim>\<open>catch\<close> block before anything is
  posted. The page elements that the scripts look up are taken to exist.
\<close>

definition applyLocationSearch ::
  "(string \<Rightarrow> (string \<times> string) list fetched) \<Rightarrow> (request \<Rightarrow> match list fetched) \<Rightarrow>
   ui_state \<Rightarrow> string \<Rightarrow> string \<Rightarrow> string list \<Rightarrow> search_outcome \<times> ui_state \<times> request option" where
  "applyLocationSearch geocode backend st postcodeInput rawDistance selectedFacilities =
     (let postcode = trim postcodeInput;
          distance = search_distance rawDistance
      in if postcode = [] then (EnterPostcodeModal, st, None)
         else if \<not> postcodeRegex postcode then (InvalidPostcodeModal, st, None)
         else if selectedFacilities = [] then (SelectFacilityModal, st, None)
         else
           (let st1 = st\<lparr>userMarker := None, searchCircle := None\<rparr>
            in case geocode postcode of
                 Failed \<Rightarrow> (SearchErrorToast, st1, None)
               | Fetched [] \<Rightarrow> (NotLocatedToast, st1, None)
               | Fetched (g # _) \<Rightarrow>
                   (let userLat = parseFloat (fst g);
                        userLon = parseFloat (snd g)
                    in if js_isNaN userLat \<or> js_isNaN userLon then (SearchErrorToast, st1, None)
                       else
                         (let st2 = st1\<lparr>userMarker := Some (userLat, userLon)\<rparr>;
                              req = search_request st selectedFacilities userLat userLon distance
                          in case backend req of
                               Failed \<Rightarrow> (SearchErrorToast, st2, Some req)
                             | Fetched result_parks \<Rightarrow>
                                 (let validMatches = valid_matches st selectedFacilities result_parks;
                                      (shown, st') =
                                        show_matches st2 userLat userLon distance validMatches
                                  in (shown, st', Some req))))))"

section \<open>The great-circle distance\<close>

text \<open>
  Modelled from the spec: \<open>distanceKm\<close>, the haversine distance in kilometres between two
  points given in degrees. The scripts under \<^verbatim>\<open>static/js\<close> do not compute it (they show
  the \<^verbatim>\<open>distance\<close> that the search endpoint sends), so the definition follows the
  specification's wording, over the real numbers and with the mean earth radius.
\<close>

definition earthRadiusKm :: real where
  "earthRadiusKm = 6371"

definition toRadians :: "real \<Rightarrow> real" where
  "toRadians d = d * pi / 180"

definition haversine :: "real \<times> real \<Rightarrow> real \<times> real \<Rightarrow> real" where
  "haversine a b =
     (sin ((toRadians (fst b) - toRadians (fst a)) / 2))\<^sup>2
       + cos (toRadians (fst a)) * cos (toRadians (fst b))
           * (sin ((toRadians (snd b) - toRadians (snd a)) / 2))\<^sup>2"

definition distanceKm :: "real \<times> real \<Rightarrow> real \<times> real \<Rightarrow> real" where
  "distanceKm a b = 2 * earthRadiusKm * arcsin (sqrt (haversine a b))"

section \<open>A small catalogue for concrete runs\<close>

text \<open>
  Parks A and B with quality 5, C with quality 3 and D without a quality score; the
  geocoder always answers with one place and the search endpoint with B, A and D in the
  order of their distances.
\<close>

definition scenario_park :: "int \<Rightarrow> string \<Rightarrow> jsval \<Rightarrow> string list \<Rightarrow> park" where
  "scenario_park i n q fs =
     \<lparr>site_id = IdNum i, name = n, lat = 55.95, lon = - 3.2,
      metrics = (\<lambda>k. if k = ''quality'' then q else JUndefined),
      facilities = Some fs, displayRank = None\<rparr>"

definition scenario_state :: ui_state where
  "scenario_state =
     \<lparr>parks = [scenario_park 1 ''A'' (JNum (Fin 5)) [''Toilets'', ''Parking''],
               scenario_park 2 ''B'' (JNum (Fin 5)) [''Cafe''],
               scenario_park 3 ''C'' (JNum (Fin 3)) [],
               scenario_park 4 ''D'' JNull ['' toilets'']],
      currentExportData = ExportParks [0, 1, 2, 3],
      userMarker = None, searchCircle = None, nearestMode = False\<rparr>"

definition scenario_geocode :: "string \<Rightarrow> (string \<times> string) list fetched" where
  "scenario_geocode postcode = Fetched [(''55.9445'', ''-3.1892'')]"

definition scenario_answer :: "match list" where
  "scenario_answer =
     [\<lparr>m_site_id = IdNum 2, m_name = ''B'', m_distance = 0.4\<rparr>,
      \<lparr>m_site_id = IdNum 1, m_name = ''A'', m_distance = 1.1\<rparr>,
      \<lparr>m_site_id = IdNum 4, m_name = ''D'', m_distance = 2.3\<rparr>]"

definition scenario_backend :: "request \<Rightarrow> match list fetched" where
  "scenario_backend req = Fetched scenario_answer"

definition scenario_nearest_state :: ui_state where
  "scenario_nearest_state = scenario_state\<lparr>nearestMode := True\<rparr>"

text \<open>
  The same search endpoint with another order of its answer: D, A and B, which is not
  the order of their distances.
\<close>

definition scenario_unsorted_answer :: "match list" where
  "scenario_unsorted_answer =
     [\<lparr>m_site_id = IdNum 4, m_name = ''D'', m_distance = 2.3\<rparr>,
      \<lparr>m_site_id = IdNum 1, m_name = ''A'', m_distance = 1.1\<rparr>,
      \<lparr>m_site_id = IdNum 2, m_name = ''B'', m_distance = 0.4\<rparr>]"

definition scenario_unsorted_backend :: "request \<Rightarrow> match list fetched" where
  "scenario_unsorted_backend req = Fetched scenario_unsorted_answer"

text \<open>
  A search endpoint that reads the request: it answers with the parks of
  \<open>scenario_answer\<close> that lie within the requested distance, and with all of them when
  the request carries no distance.
\<close>

definition scenario_radius_backend :: "request \<Rightarrow> match list fetched" where
  "scenario_radius_backend req =
     Fetched (case req_distance req of
                None \<Rightarrow> scenario_answer
              | Some d \<Rightarrow> filter (\<lambda>m. m_distance m \<le> d) scenario_answer)"


text \<open>
  A catalogue with quality scores of every kind: \<^verbatim>\<open>true\<close>, the empty text, a blank
  text, the number 3, the text \<^verbatim>\<open>unknown\<close>, \<^verbatim>\<open>null\<close>, and no score at all.
\<close>

definition scenario_loose_state :: ui_state where
  "scenario_loose_state =
     \<lparr>parks = [scenario_park 1 ''A'' (JBool True) [],
               scenario_park 2 ''B'' (JStr '''') [],
               scenario_park 3 ''C'' (JStr ''  '') [],
               scenario_park 4 ''D'' (JNum (Fin 3)) [],
               scenario_park 5 ''E'' (JStr ''unknown'') [],
               scenario_park 6 ''F'' JNull [],
               scenario_park 7 ''G'' JUndefined []],
      currentExportData = ExportParks [],
      userMarker = None, searchCircle = None, nearestMode = False\<rparr>"

section \<open>Properties of applyLocationSearch\<close>

lemma postcodeRegex_nonempty: "postcodeRegex s \<Longrightarrow> s \<noteq> []"
  by (auto simp: postcodeRegex_def)

text \<open>Once the form checks pass and the geocoder finds a place, the answer decides.\<close>

lemma search_located:
  assumes "postcodeRegex (trim pc)" and "sel \<noteq> []" and "geocode (trim pc) = Fetched (g # gs)"
    and "\<not> js_isNaN (parseFloat (fst g))" and "\<not> js_isNaN (parseFloat (snd g))"
  shows "applyLocationSearch geocode backend st pc rd sel =
    (let userLat = parseFloat (fst g); userLon = parseFloat (snd g);
         st2 = st\<lparr>userMarker := None, searchCircle := None\<rparr>\<lparr>userMarker := Some (userLat, userLon)\<rparr>;
         req = search_request st sel userLat userLon (search_distance rd)
     in case backend req of
          Failed \<Rightarrow> (SearchErrorToast, st2, Some req)
        | Fetched result_parks \<Rightarrow>
            (fst (show_matches st2 userLat userLon (search_distance rd) (valid_matches st sel result_parks)),
             snd (show_matches st2 userLat userLon (search_distance rd) (valid_matches st sel result_parks)),
             Some req))"
  using assms postcodeRegex_nonempty[OF assms(1)]
  by (simp add: applyLocationSearch_def Let_def split_beta split: fetched.splits)

lemma search_Found:
  assumes "applyLocationSearch geocode backend st pc rd sel = (Found ms, st', sent)"
  shows "\<exists>req answer. sent = Some req \<and> backend req = Fetched answer \<and> ms = valid_matches st sel answer"
  using assms
  by (auto simp: applyLocationSearch_def Let_def split_beta show_matches_def
      split: if_splits fetched.splits list.splits)

lemma search_Found_nonempty:
  assumes "applyLocationSearch geocode backend st pc rd sel = (Found ms, st', sent)"
  shows "ms \<noteq> []"
  using assms
  by (auto simp: applyLocationSearch_def Let_def split_beta show_matches_def
      split: if_splits fetched.splits list.splits)

lemma valid_matches_take:
  "valid_matches st sel answer =
     (if nearestMode st then take 1 (filter (facility_match (parks st) sel) answer)
      else filter (facility_match (parks st) sel) answer)"
  by (cases "filter (facility_match (parks st) sel) answer") (auto simp: valid_matches_def Let_def)

lemma valid_matches_member:
  "m \<in> set (valid_matches st sel answer) \<Longrightarrow> facility_match (parks st) sel m \<and> m \<in> set answer"
  by (auto simp: valid_matches_take split: if_splits dest: in_set_takeD)

lemma facility_match_iff:
  "facility_match ps sel m =
     (\<exists>p available. find_park ps (m_site_id m) = Some p \<and> facilities p = Some available \<and>
        (\<forall>req \<in> set sel. \<exists>avail \<in> set available.
           trim (toLowerCase avail) = trim (toLowerCase req)))"
  by (auto simp: facility_match_def has_facility_def Let_def list_all_iff list_ex_iff
      split: option.splits)

lemma search_distance_empty: "search_distance [] = Fin 5"
  by (simp add: search_distance_def)

lemma js_isNaN_times_1000: "js_isNaN (js_mul d (Fin 1000)) = js_isNaN d"
  by (cases d) simp_all

lemma show_matches_fst:
  "fst (show_matches st la lo d v) =
     (if v = [] then NoResultsModal
      else if \<not> nearestMode st \<and> js_isNaN d then SearchErrorToast else Found v)"
  by (simp add: show_matches_def Let_def js_isNaN_times_1000)

lemma show_matches_circle:
  "v \<noteq> [] \<Longrightarrow> \<not> nearestMode st \<Longrightarrow> \<not> js_isNaN d \<Longrightarrow>
   searchCircle (snd (show_matches st la lo d v)) = Some (la, lo, js_mul d (Fin 1000))"
  by (simp add: show_matches_def Let_def js_isNaN_times_1000)

lemma show_matches_export:
  "currentExportData (snd (show_matches st la lo d v)) = ExportMatches v"
  by (simp add: show_matches_def Let_def)

lemma search_answered:
  assumes "applyLocationSearch geocode backend st pc rd sel = (out, st', Some req)"
    and "backend req = Fetched answer"
  shows "out = fst (show_matches (st\<lparr>userMarker := None, searchCircle := None\<rparr>\<lparr>userMarker := userMarker st'\<rparr>)
                     (fst (the (userMarker st'))) (snd (the (userMarker st'))) (search_distance rd)
                     (valid_matches st sel answer))
       \<and> currentExportData st' = ExportMatches (valid_matches st sel answer)"
  using assms
  by (auto simp: applyLocationSearch_def Let_def split_beta show_matches_def
      split: if_splits fetched.splits list.splits)

lemma search_sent:
  assumes "applyLocationSearch geocode backend st pc rd sel = (out, st', Some req)"
  shows "\<exists>g gs. geocode (trim pc) = Fetched (g # gs)
           \<and> req = search_request st sel (parseFloat (fst g)) (parseFloat (snd g))
                     (search_distance rd)"
  using assms
  by (auto simp: applyLocationSearch_def Let_def split_beta
      split: if_splits fetched.splits list.splits)

lemma first_match_split:
  assumes "take 1 (filter P xs) = [m]"
  shows "\<exists>pre post. xs = pre @ m # post \<and> P m \<and> (\<forall>x \<in> set pre. \<not> P x)"
proof -
  from assms obtain rest where f: "filter P xs = m # rest"
    by (cases "filter P xs") auto
  from f[unfolded filter_eq_Cons_iff] show ?thesis by blast
qed

lemma scenario_postcode: "postcodeRegex (trim ''EH8 9YL'')"
  by code_simp

lemma scenario_place:
  "scenario_geocode (trim ''EH8 9YL'') = Fetched ((''55.9445'', ''-3.1892'') # [])"
  by (simp add: scenario_geocode_def)

lemma scenario_lat: "\<not> js_isNaN (parseFloat (fst (''55.9445'', ''-3.1892'')))"
  unfolding fst_conv by code_simp

lemma scenario_lon: "\<not> js_isNaN (parseFloat (snd (''55.9445'', ''-3.1892'')))"
  unfolding snd_conv by code_simp

lemma scenario_toilets:
  "filter (facility_match (parks scenario_state) [''toilets'']) scenario_answer
     = [scenario_answer ! 1, scenario_answer ! 2]"
  by code_simp

lemma scenario_far_mode: "\<not> nearestMode scenario_state"
  by (simp add: scenario_state_def)

lemma scenario_near_mode: "nearestMode scenario_nearest_state"
  by (simp add: scenario_nearest_state_def)

lemma scenario_near_parks: "parks scenario_nearest_state = parks scenario_state"
  by (simp add: scenario_nearest_state_def)

text \<open>A search on the small catalogue, once the selected facilities are given.\<close>

lemma scenario_search:
  assumes "sel \<noteq> []"
  shows "applyLocationSearch scenario_geocode scenario_backend st ''EH8 9YL'' rd sel =
    (fst (show_matches
            (st\<lparr>userMarker := None, searchCircle := None\<rparr>
               \<lparr>userMarker := Some (parseFloat ''55.9445'', parseFloat ''-3.1892'')\<rparr>)
            (parseFloat ''55.9445'') (parseFloat ''-3.1892'') (search_distance rd)
            (valid_matches st sel scenario_answer)),
     snd (show_matches
            (st\<lparr>userMarker := None, searchCircle := None\<rparr>
               \<lparr>userMarker := Some (parseFloat ''55.9445'', parseFloat ''-3.1892'')\<rparr>)
            (parseFloat ''55.9445'') (parseFloat ''-3.1892'') (search_distance rd)
            (valid_matches st sel scenario_answer)),
     Some (search_request st sel (parseFloat ''55.9445'') (parseFloat ''-3.1892'')
             (search_distance rd)))"
  using search_located[where geocode = scenario_geocode and pc = "''EH8 9YL''" and sel = sel
      and backend = scenario_backend and st = st and rd = rd,
      OF scenario_postcode assms scenario_place scenario_lat scenario_lon]
  by (simp add: Let_def scenario_backend_def)

text \<open>The same for any search endpoint.\<close>

lemma scenario_located:
  assumes "sel \<noteq> []"
  shows "applyLocationSearch scenario_geocode backend st ''EH8 9YL'' rd sel =
    (case backend (search_request st sel (parseFloat ''55.9445'') (parseFloat ''-3.1892'')
                     (search_distance rd)) of
       Failed \<Rightarrow>
         (SearchErrorToast,
          st\<lparr>userMarker := None, searchCircle := None\<rparr>
            \<lparr>userMarker := Some (parseFloat ''55.9445'', parseFloat ''-3.1892'')\<rparr>,
          Some (search_request st sel (parseFloat ''55.9445'') (parseFloat ''-3.1892'')
                  (search_distance rd)))
     | Fetched result_parks \<Rightarrow>
         (fst (show_matches
                 (st\<lparr>userMarker := None, searchCircle := None\<rparr>
                    \<lparr>userMarker := Some (parseFloat ''55.9445'', parseFloat ''-3.1892'')\<rparr>)
                 (parseFloat ''55.9445'') (parseFloat ''-3.1892'') (search_distance rd)
                 (valid_matches st sel result_parks)),
          snd (show_matches
                 (st\<lparr>userMarker := None, searchCircle := None\<rparr>
                    \<lparr>userMarker := Some (parseFloat ''55.9445'', parseFloat ''-3.1892'')\<rparr>)
                 (parseFloat ''55.9445'') (parseFloat ''-3.1892'') (search_distance rd)
                 (valid_matches st sel result_parks)),
          Some (search_request st sel (parseFloat ''55.9445'') (parseFloat ''-3.1892'')
                  (search_distance rd))))"
  using search_located[where geocode = scenario_geocode and pc = "''EH8 9YL''" and sel = sel
      and backend = backend and st = st and rd = rd,
      OF scenario_postcode assms scenario_place scenario_lat scenario_lon]
  by (simp add: Let_def split: fetched.split)

lemma scenario_unsorted_toilets:
  "filter (facility_match (parks scenario_state) [''toilets'']) scenario_unsorted_answer
     = [scenario_unsorted_answer ! 0, scenario_unsorted_answer ! 1]"
  by code_simp

text \<open>
  Claim C4. Whatever the catalogue, the answers of the geocoder and of the search endpoint,
  and the selected facilities: every entry that \<open>applyLocationSearch\<close> reports as found
  belongs to a park of the catalogue (looked up by \<^verbatim>\<open>String(site_id)\<close>) whose facility
  list holds, for each selected facility, a name equal to it after lower-casing and
  trimming both. A park that lacks one selected facility is never reported.
\<close>

theorem search_requires_every_facility:
  assumes "applyLocationSearch geocode backend st pc rd sel = (Found ms, st', sent)"
    and "m \<in> set ms"
  shows "\<exists>p available. find_park (parks st) (m_site_id m) = Some p \<and>
           facilities p = Some available \<and>
           (\<forall>req \<in> set sel. \<exists>avail \<in> set available.
              trim (toLowerCase avail) = trim (toLowerCase req))"
proof -
  from search_Found[OF assms(1)] obtain req answer where "ms = valid_matches st sel answer"
    by blast
  with assms(2) have "facility_match (parks st) sel m"
    using valid_matches_member by blast
  then show ?thesis by (simp add: facility_match_iff)
qed

theorem search_requires_every_facility_witness:
  "fst (applyLocationSearch scenario_geocode scenario_backend scenario_state
          ''EH8 9YL'' ''2.5'' [''toilets'', ''PARKING ''])
     = Found [scenario_answer ! 1]
   \<and> (\<exists>p available. find_park (parks scenario_state) (m_site_id (scenario_answer ! 1)) = Some p
         \<and> facilities p = Some available
         \<and> (\<exists>a. a \<in> set available \<and> trim (toLowerCase a) = trim (toLowerCase ''PARKING '')))"
proof -
  let ?sel = "[''toilets'', ''PARKING '']"
  let ?r = "applyLocationSearch scenario_geocode scenario_backend scenario_state
              ''EH8 9YL'' ''2.5'' ?sel"
  have s: "?sel \<noteq> []" by simp
  have v: "valid_matches scenario_state ?sel scenario_answer = [scenario_answer ! 1]"
    by code_simp
  have d: "\<not> js_isNaN (search_distance ''2.5'')"
    by code_simp
  have f: "fst ?r = Found [scenario_answer ! 1]"
    by (simp add: scenario_search[OF s] v show_matches_fst d)
  then have e: "?r = (Found [scenario_answer ! 1], fst (snd ?r), snd (snd ?r))"
    by (metis prod.collapse)
  have "\<exists>p available. find_park (parks scenario_state) (m_site_id (scenario_answer ! 1)) = Some p
          \<and> facilities p = Some available
          \<and> (\<forall>req \<in> set ?sel. \<exists>avail \<in> set available.
                trim (toLowerCase avail) = trim (toLowerCase req))"
    by (rule search_requires_every_facility[OF e]) simp
  then show ?thesis using f by auto
qed

text \<open>
  Claim C5, as the code has it. In nearest mode whatever is reported as found is a single
  entry. The request posted to the search endpoint carries the place that the geocoder
  found, the selected facilities, \<^verbatim>\<open>nearest_only\<close> and no distance. Once the endpoint
  has answered, the result (the export data, and what is reported) is the first entry of
  the answer that passes the facility filter: no entry before it in the answer passes,
  and nothing is found exactly when no entry of the answer passes. The script compares
  no distances; the order is the order of the answer.
\<close>

theorem nearest_returns_first_match:
  assumes "nearestMode st"
    and "applyLocationSearch geocode backend st pc rd sel = (out, st', sent)"
  shows "(\<forall>ms. out = Found ms \<longrightarrow> length ms = 1)
       \<and> (\<forall>req. sent = Some req \<longrightarrow>
            (\<exists>g gs. geocode (trim pc) = Fetched (g # gs)
               \<and> req_user_lat req = json_number (parseFloat (fst g))
               \<and> req_user_lon req = json_number (parseFloat (snd g)))
            \<and> req_facilities req = sel \<and> req_nearest_only req \<and> req_distance req = None)
       \<and> (\<forall>req answer. sent = Some req \<and> backend req = Fetched answer \<longrightarrow>
            (\<exists>v. currentExportData st' = ExportMatches v \<and> length v \<le> 1
               \<and> out = (if v = [] then NoResultsModal else Found v)
               \<and> v = take 1 (filter (facility_match (parks st) sel) answer)
               \<and> (v = [] \<longrightarrow> (\<forall>x \<in> set answer. \<not> facility_match (parks st) sel x))
               \<and> (\<forall>m. v = [m] \<longrightarrow>
                    (\<exists>pre post. answer = pre @ m # post \<and> facility_match (parks st) sel m
                       \<and> (\<forall>x \<in> set pre. \<not> facility_match (parks st) sel x)))))"
proof -
  have one: "length ms = 1" if "out = Found ms" for ms
  proof -
    have e: "applyLocationSearch geocode backend st pc rd sel = (Found ms, st', sent)"
      using assms(2) that by simp
    from search_Found[OF e] obtain answer where "ms = valid_matches st sel answer"
      by blast
    then have "ms = take 1 (filter (facility_match (parks st) sel) answer)"
      using assms(1) by (simp add: valid_matches_take)
    moreover have "ms \<noteq> []"
      using search_Found_nonempty[OF e] .
    ultimately show ?thesis
      by (cases "filter (facility_match (parks st) sel) answer") auto
  qed
  have req: "(\<exists>g gs. geocode (trim pc) = Fetched (g # gs)
               \<and> req_user_lat req = json_number (parseFloat (fst g))
               \<and> req_user_lon req = json_number (parseFloat (snd g)))
            \<and> req_facilities req = sel \<and> req_nearest_only req \<and> req_distance req = None"
    if "sent = Some req" for req
  proof -
    have "applyLocationSearch geocode backend st pc rd sel = (out, st', Some req)"
      using assms(2) that by simp
    from search_sent[OF this] obtain g gs where g: "geocode (trim pc) = Fetched (g # gs)"
      and r: "req = search_request st sel (parseFloat (fst g)) (parseFloat (snd g))
                      (search_distance rd)"
      by blast
    have "req_user_lat req = json_number (parseFloat (fst g))"
      and "req_user_lon req = json_number (parseFloat (snd g))"
      and "req_facilities req = sel" and "req_nearest_only req" and "req_distance req = None"
      using assms(1) unfolding r by (simp_all add: search_request_def)
    then show ?thesis using g by blast
  qed
  have first: "\<exists>v. currentExportData st' = ExportMatches v \<and> length v \<le> 1
               \<and> out = (if v = [] then NoResultsModal else Found v)
               \<and> v = take 1 (filter (facility_match (parks st) sel) answer)
               \<and> (v = [] \<longrightarrow> (\<forall>x \<in> set answer. \<not> facility_match (parks st) sel x))
               \<and> (\<forall>m. v = [m] \<longrightarrow>
                    (\<exists>pre post. answer = pre @ m # post \<and> facility_match (parks st) sel m
                       \<and> (\<forall>x \<in> set pre. \<not> facility_match (parks st) sel x)))"
    if sent: "sent = Some req" and ans: "backend req = Fetched answer" for req answer
  proof -
    let ?v = "valid_matches st sel answer"
    let ?cand = "filter (facility_match (parks st) sel) answer"
    have run: "applyLocationSearch geocode backend st pc rd sel = (out, st', Some req)"
      using assms(2) sent by simp
    have v: "?v = take 1 ?cand"
      using assms(1) by (simp add: valid_matches_take)
    have o: "out = (if ?v = [] then NoResultsModal else Found ?v)"
      and e: "currentExportData st' = ExportMatches ?v"
      using search_answered[OF run ans] assms(1) by (simp_all add: show_matches_fst)
    have none: "\<forall>x \<in> set answer. \<not> facility_match (parks st) sel x" if "?v = []"
      using that unfolding v by (auto simp: filter_empty_conv)
    have some: "\<exists>pre post. answer = pre @ m # post \<and> facility_match (parks st) sel m
                       \<and> (\<forall>x \<in> set pre. \<not> facility_match (parks st) sel x)" if "?v = [m]" for m
      using that unfolding v by (rule first_match_split)
    show ?thesis
    proof (intro exI[of _ ?v] conjI)
      show "currentExportData st' = ExportMatches ?v" by (rule e)
      show "length ?v \<le> 1" unfolding v by simp
      show "out = (if ?v = [] then NoResultsModal else Found ?v)" by (rule o)
      show "?v = take 1 ?cand" by (rule v)
      show "?v = [] \<longrightarrow> (\<forall>x \<in> set answer. \<not> facility_match (parks st) sel x)"
        using none by blast
      show "\<forall>m. ?v = [m] \<longrightarrow>
              (\<exists>pre post. answer = pre @ m # post \<and> facility_match (parks st) sel m
                 \<and> (\<forall>x \<in> set pre. \<not> facility_match (parks st) sel x))"
        using some by blast
    qed
  qed
  show ?thesis
  proof (intro conjI allI impI)
    fix ms assume "out = Found ms"
    then show "length ms = 1" by (rule one)
  next
    fix req assume "sent = Some req"
    from req[OF this]
    show "\<exists>g gs. geocode (trim pc) = Fetched (g # gs)
               \<and> req_user_lat req = json_number (parseFloat (fst g))
               \<and> req_user_lon req = json_number (parseFloat (snd g))"
      and "req_facilities req = sel" and "req_nearest_only req" and "req_distance req = None"
      by blast+
  next
    fix req answer assume "sent = Some req \<and> backend req = Fetched answer"
    then show "\<exists>v. currentExportData st' = ExportMatches v \<and> length v \<le> 1
               \<and> out = (if v = [] then NoResultsModal else Found v)
               \<and> v = take 1 (filter (facility_match (parks st) sel) answer)
               \<and> (v = [] \<longrightarrow> (\<forall>x \<in> set answer. \<not> facility_match (parks st) sel x))
               \<and> (\<forall>m. v = [m] \<longrightarrow>
                    (\<exists>pre post. answer = pre @ m # post \<and> facility_match (parks st) sel m
                       \<and> (\<forall>x \<in> set pre. \<not> facility_match (parks st) sel x)))"
      using first by blast
  qed
qed

theorem nearest_returns_first_match_witness:
  "fst (applyLocationSearch scenario_geocode scenario_backend scenario_nearest_state
          ''EH8 9YL'' ''2.5'' [''toilets''])
     = Found [scenario_answer ! 1]
   \<and> \<not> facility_match (parks scenario_nearest_state) [''toilets''] (scenario_answer ! 0)
   \<and> map_option req_distance
       (snd (snd (applyLocationSearch scenario_geocode scenario_backend scenario_nearest_state
                    ''EH8 9YL'' ''2.5'' [''toilets''])))
     = Some None"
proof -
  let ?r = "applyLocationSearch scenario_geocode scenario_backend scenario_nearest_state
              ''EH8 9YL'' ''2.5'' [''toilets'']"
  let ?la = "parseFloat ''55.9445''" and ?lo = "parseFloat ''-3.1892''"
  let ?req = "search_request scenario_nearest_state [''toilets''] ?la ?lo (search_distance ''2.5'')"
  have s: "[''toilets''] \<noteq> []" by simp
  have sent: "snd (snd ?r) = Some ?req"
    by (simp add: scenario_search[OF s])
  then have e: "?r = (fst ?r, fst (snd ?r), Some ?req)"
    by (metis prod.collapse)
  have b: "scenario_backend ?req = Fetched scenario_answer"
    by (simp add: scenario_backend_def)
  note th = nearest_returns_first_match[OF scenario_near_mode e]
  have d: "req_distance ?req = None"
    using th[THEN conjunct2, THEN conjunct1, rule_format, OF refl] by blast
  from th[THEN conjunct2, THEN conjunct2, rule_format, OF conjI[OF refl b]]
  obtain v where o: "fst ?r = (if v = [] then NoResultsModal else Found v)"
    and v: "v = take 1 (filter (facility_match (parks scenario_nearest_state) [''toilets'']) scenario_answer)"
    by blast
  have v1: "v = [scenario_answer ! 1]"
    using v by (simp add: scenario_near_parks scenario_toilets)
  have m0: "\<not> facility_match (parks scenario_nearest_state) [''toilets''] (scenario_answer ! 0)"
    unfolding scenario_near_parks by code_simp
  show ?thesis using o v1 m0 sent d by simp
qed

text \<open>
  An endpoint that answers with D (2.3 km), A (1.1 km) and B (0.4 km) in this order: the
  search for toilets in nearest mode reports D, although A has toilets and is closer.
\<close>

theorem nearest_reports_farther_park:
  "fst (applyLocationSearch scenario_geocode scenario_unsorted_backend scenario_nearest_state
          ''EH8 9YL'' [] [''toilets''])
     = Found [scenario_unsorted_answer ! 0]
   \<and> facility_match (parks scenario_nearest_state) [''toilets''] (scenario_unsorted_answer ! 1)
   \<and> m_distance (scenario_unsorted_answer ! 1) < m_distance (scenario_unsorted_answer ! 0)"
proof -
  have s: "[''toilets''] \<noteq> []" by simp
  have m: "facility_match (parks scenario_nearest_state) [''toilets''] (scenario_unsorted_answer ! 1)"
    unfolding scenario_near_parks by code_simp
  have d: "m_distance (scenario_unsorted_answer ! 1) < m_distance (scenario_unsorted_answer ! 0)"
    by (simp add: scenario_unsorted_answer_def)
  have "fst (applyLocationSearch scenario_geocode scenario_unsorted_backend scenario_nearest_state
          ''EH8 9YL'' [] [''toilets'']) = Found [scenario_unsorted_answer ! 0]"
    using scenario_near_mode
    by (simp add: scenario_located[OF s] scenario_unsorted_backend_def valid_matches_take
        scenario_near_parks scenario_unsorted_toilets show_matches_fst)
  then show ?thesis using m d by simp
qed

text \<open>
  Claim C10. In distance mode an empty distance input stops no search: when the form
  checks pass and the place is found (with coordinates that are numbers), the request
  posted to the search endpoint carries the distance 5, the only error shown is the one
  for a failed endpoint call, and when parks are found the search circle is drawn around
  the place with radius 5 * 1000 metres. The run is the run for the input \<^verbatim>\<open>5.0\<close>.
\<close>

theorem empty_distance_defaults_to_five:
  assumes "\<not> nearestMode st" and "postcodeRegex (trim pc)" and "sel \<noteq> []"
    and "geocode (trim pc) = Fetched (g # gs)"
    and "\<not> js_isNaN (parseFloat (fst g))" and "\<not> js_isNaN (parseFloat (snd g))"
  shows "(\<exists>req. snd (snd (applyLocationSearch geocode backend st pc [] sel)) = Some req
           \<and> req_distance req = Some 5
           \<and> (fst (applyLocationSearch geocode backend st pc [] sel) = SearchErrorToast)
               = (backend req = Failed)
           \<and> (\<forall>ms. fst (applyLocationSearch geocode backend st pc [] sel) = Found ms \<longrightarrow>
                 searchCircle (fst (snd (applyLocationSearch geocode backend st pc [] sel)))
                   = Some (parseFloat (fst g), parseFloat (snd g), Fin 5000)))
       \<and> applyLocationSearch geocode backend st pc [] sel
           = applyLocationSearch geocode backend st pc ''5.0'' sel"
proof -
  let ?la = "parseFloat (fst g)" and ?lo = "parseFloat (snd g)"
  let ?req = "search_request st sel ?la ?lo (Fin 5)"
  note loc = search_located[where geocode = geocode and pc = pc and backend = backend and st = st
      and rd = "[]", OF assms(2,3,4,5,6), unfolded search_distance_empty Let_def]
  have five: "search_distance ''5.0'' = search_distance []"
    by code_simp
  have same: "applyLocationSearch geocode backend st pc [] sel
               = applyLocationSearch geocode backend st pc ''5.0'' sel"
    unfolding applyLocationSearch_def five ..
  have d: "req_distance ?req = Some 5"
    using assms(1) by (simp add: search_request_def)
  have main: "\<exists>req. snd (snd (applyLocationSearch geocode backend st pc [] sel)) = Some req
           \<and> req_distance req = Some 5
           \<and> (fst (applyLocationSearch geocode backend st pc [] sel) = SearchErrorToast)
               = (backend req = Failed)
           \<and> (\<forall>ms. fst (applyLocationSearch geocode backend st pc [] sel) = Found ms \<longrightarrow>
                 searchCircle (fst (snd (applyLocationSearch geocode backend st pc [] sel)))
                   = Some (parseFloat (fst g), parseFloat (snd g), Fin 5000))"
  proof (cases "backend ?req")
    case Failed
    then show ?thesis using d by (intro exI[of _ ?req]) (simp add: loc)
  next
    case (Fetched answer)
    then show ?thesis using d assms(1)
      by (intro exI[of _ ?req])
        (auto simp: loc show_matches_fst show_matches_circle split: if_splits)
  qed
  show ?thesis using main same by (rule conjI)
qed

theorem empty_distance_defaults_to_five_witness:
  "map_option req_distance
     (snd (snd (applyLocationSearch scenario_geocode scenario_backend scenario_state
                  ''EH8 9YL'' [] [''toilets''])))
     = Some (Some 5)
   \<and> searchCircle
       (fst (snd (applyLocationSearch scenario_geocode scenario_backend scenario_state
                    ''EH8 9YL'' [] [''toilets''])))
     = Some (parseFloat ''55.9445'', parseFloat ''-3.1892'', Fin 5000)"
proof -
  let ?r = "applyLocationSearch scenario_geocode scenario_backend scenario_state
              ''EH8 9YL'' [] [''toilets'']"
  have s: "[''toilets''] \<noteq> []" by simp
  from empty_distance_defaults_to_five[where geocode = scenario_geocode and pc = "''EH8 9YL''"
      and backend = scenario_backend,
      OF scenario_far_mode scenario_postcode s scenario_place scenario_lat scenario_lon]
  obtain req where sent: "snd (snd ?r) = Some req" and d: "req_distance req = Some 5"
    and circle: "\<forall>ms. fst ?r = Found ms \<longrightarrow>
        searchCircle (fst (snd ?r)) = Some (parseFloat ''55.9445'', parseFloat ''-3.1892'', Fin 5000)"
    by auto
  have "fst ?r = Found [scenario_answer ! 1, scenario_answer ! 2]"
    using scenario_far_mode
    by (simp add: scenario_search[OF s] valid_matches_take scenario_toilets show_matches_fst
        search_distance_empty)
  with circle sent d show ?thesis by simp
qed

text \<open>
  Claim C8, as the code has it. \<open>applyLocationSearch\<close> checks no radius. In distance mode,
  when the form checks pass and the place is found (with coordinates that are numbers),
  a distance text that reads as the number \<open>r\<close> is posted to the search endpoint as it
  is, whatever its sign. The error toast is shown exactly when the endpoint call fails;
  with an answer from the endpoint the outcome is the no-results modal when no entry
  passes the facility filter, and otherwise the list of the entries that pass it.
\<close>

theorem radius_never_rejected:
  assumes "\<not> nearestMode st" and "postcodeRegex (trim pc)" and "sel \<noteq> []"
    and "geocode (trim pc) = Fetched (g # gs)"
    and "\<not> js_isNaN (parseFloat (fst g))" and "\<not> js_isNaN (parseFloat (snd g))"
    and "search_distance rd = Fin r"
  shows "\<exists>req. snd (snd (applyLocationSearch geocode backend st pc rd sel)) = Some req
           \<and> req_distance req = Some r
           \<and> (fst (applyLocationSearch geocode backend st pc rd sel) = SearchErrorToast)
               = (backend req = Failed)
           \<and> (\<forall>answer. backend req = Fetched answer \<longrightarrow>
                 fst (applyLocationSearch geocode backend st pc rd sel) =
                   (if filter (facility_match (parks st) sel) answer = [] then NoResultsModal
                    else Found (filter (facility_match (parks st) sel) answer)))"
proof -
  let ?la = "parseFloat (fst g)" and ?lo = "parseFloat (snd g)"
  let ?req = "search_request st sel ?la ?lo (Fin r)"
  note loc = search_located[where geocode = geocode and pc = pc and backend = backend and st = st
      and rd = rd, OF assms(2,3,4,5,6), unfolded Let_def assms(7)]
  have d: "req_distance ?req = Some r"
    using assms(1) by (simp add: search_request_def)
  show ?thesis
  proof (cases "backend ?req")
    case Failed
    then show ?thesis using d by (intro exI[of _ ?req]) (simp add: loc)
  next
    case (Fetched answer)
    then show ?thesis using d assms(1)
      by (intro exI[of _ ?req])
        (auto simp: loc show_matches_fst valid_matches_take split: if_splits)
  qed
qed

theorem radius_never_rejected_witness:
  "fst (applyLocationSearch scenario_geocode scenario_backend scenario_state
          ''EH8 9YL'' ''0'' [''toilets''])
     = Found [scenario_answer ! 1, scenario_answer ! 2]
   \<and> map_option req_distance
       (snd (snd (applyLocationSearch scenario_geocode scenario_backend scenario_state
                    ''EH8 9YL'' ''0'' [''toilets''])))
     = Some (Some 0)"
proof -
  let ?r = "applyLocationSearch scenario_geocode scenario_backend scenario_state
              ''EH8 9YL'' ''0'' [''toilets'']"
  have s: "[''toilets''] \<noteq> []" by simp
  have z: "search_distance ''0'' = Fin 0"
    by code_simp
  from radius_never_rejected[where geocode = scenario_geocode and pc = "''EH8 9YL''"
      and backend = scenario_backend and rd = "''0''",
      OF scenario_far_mode scenario_postcode s scenario_place scenario_lat scenario_lon z]
  obtain req where sent: "snd (snd ?r) = Some req" and d: "req_distance req = Some 0"
    and "\<forall>answer. scenario_backend req = Fetched answer \<longrightarrow>
       fst ?r = (if filter (facility_match (parks scenario_state) [''toilets'']) answer = []
                 then NoResultsModal
                 else Found (filter (facility_match (parks scenario_state) [''toilets'']) answer))"
    by auto
  then show ?thesis
    by (simp add: scenario_backend_def scenario_toilets)
qed

text \<open>
  The distance input \<^verbatim>\<open>-1\<close> in distance mode: the request carries the radius -1. With
  the endpoint that answers with the parks within the requested distance the outcome is
  the no-results modal, as it is for the radius 0.3; with the endpoint that answers with
  all three parks, the two that have toilets are reported as found.
\<close>

theorem negative_radius_searched:
  "search_distance ''-1'' = Fin (- 1)
   \<and> map_option req_distance
       (snd (snd (applyLocationSearch scenario_geocode scenario_radius_backend scenario_state
                    ''EH8 9YL'' ''-1'' [''toilets''])))
     = Some (Some (- 1))
   \<and> fst (applyLocationSearch scenario_geocode scenario_radius_backend scenario_state
            ''EH8 9YL'' ''-1'' [''toilets''])
     = NoResultsModal
   \<and> fst (applyLocationSearch scenario_geocode scenario_radius_backend scenario_state
            ''EH8 9YL'' ''0.3'' [''toilets''])
     = NoResultsModal
   \<and> fst (applyLocationSearch scenario_geocode scenario_backend scenario_state
            ''EH8 9YL'' ''-1'' [''toilets''])
     = Found [scenario_answer ! 1, scenario_answer ! 2]"
proof -
  have s: "[''toilets''] \<noteq> []" by simp
  have d: "search_distance ''-1'' = Fin (- 1)"
    by code_simp
  have e: "search_distance ''0.3'' = Fin 0.3"
    by code_simp
  have a: "map_option req_distance
       (snd (snd (applyLocationSearch scenario_geocode scenario_radius_backend scenario_state
                    ''EH8 9YL'' ''-1'' [''toilets''])))
     = Some (Some (- 1))"
    using scenario_far_mode
    by (simp add: scenario_located[OF s] scenario_radius_backend_def d search_request_def)
  have b: "fst (applyLocationSearch scenario_geocode scenario_radius_backend scenario_state
            ''EH8 9YL'' ''-1'' [''toilets''])
     = NoResultsModal"
    using scenario_far_mode
    by (simp add: scenario_located[OF s] scenario_radius_backend_def d search_request_def
        scenario_answer_def valid_matches_take show_matches_fst)
  have c: "fst (applyLocationSearch scenario_geocode scenario_radius_backend scenario_state
            ''EH8 9YL'' ''0.3'' [''toilets''])
     = NoResultsModal"
    using scenario_far_mode
    by (simp add: scenario_located[OF s] scenario_radius_backend_def e search_request_def
        scenario_answer_def valid_matches_take show_matches_fst)
  have f: "fst (applyLocationSearch scenario_geocode scenario_backend scenario_state
            ''EH8 9YL'' ''-1'' [''toilets''])
     = Found [scenario_answer ! 1, scenario_answer ! 2]"
    using scenario_far_mode
    by (simp add: scenario_search[OF s] valid_matches_take scenario_toilets show_matches_fst d)
  show ?thesis using d a b c f by simp
qed

section \<open>Properties of distanceKm\<close>

lemma haversine_same: "haversine p p = 0"
  by (simp add: haversine_def)

lemma sin_half_diff_sq: "(sin ((x - y) / 2))\<^sup>2 = (sin ((y - x) / 2))\<^sup>2" for x y :: real
proof -
  have "(x - y) / 2 = - ((y - x) / 2)" by argo
  then have "sin ((x - y) / 2) = - sin ((y - x) / 2)" by (metis sin_minus)
  then show ?thesis by simp
qed

lemma haversine_sym: "haversine a b = haversine b a"
  by (simp add: haversine_def mult.commute sin_half_diff_sq[of "toRadians (fst a)"]
      sin_half_diff_sq[of "toRadians (snd a)"])

text \<open>The haversine term lies between 0 and 1, whatever the coordinates.\<close>

lemma haversine_range: "0 \<le> haversine a b \<and> haversine a b \<le> 1"
proof -
  define p q s where "p = toRadians (fst a)" and "q = toRadians (fst b)"
    and "s = (sin ((toRadians (snd b) - toRadians (snd a)) / 2))\<^sup>2"
  define cd cs where "cd = cos (q - p)" and "cs = cos (q + p)"
  have s0: "0 \<le> s" and s1: "s \<le> 1"
    by (simp_all add: s_def abs_square_le_1)
  have cdb: "- 1 \<le> cd" "cd \<le> 1" and csb: "- 1 \<le> cs" "cs \<le> 1"
    by (simp_all add: cd_def cs_def)
  have half: "(sin ((q - p) / 2))\<^sup>2 = (1 - cd) / 2"
  proof -
    have "q - p = 2 * ((q - p) / 2)"
      by argo
    then have "cos (q - p) = cos (2 * ((q - p) / 2))"
      by (rule arg_cong)
    also have "\<dots> = 1 - 2 * (sin ((q - p) / 2))\<^sup>2"
      by (rule cos_double_sin)
    finally show ?thesis unfolding cd_def by argo
  qed
  have prod: "cos p * cos q = (cd + cs) / 2"
    by (simp add: cd_def cs_def cos_diff cos_add)
  have h: "haversine a b = (1 - cd) / 2 + (cd + cs) / 2 * s"
    unfolding haversine_def p_def[symmetric] q_def[symmetric] s_def[symmetric]
    by (simp add: half prod)
  have t0: "0 \<le> 1 - s"
    using s1 by simp
  have m1: "(1 - s) * cd \<le> (1 - s) * 1"
    using cdb(2) t0 by (rule mult_left_mono)
  have m2: "(1 - s) * (- 1) \<le> (1 - s) * cd"
    using cdb(1) t0 by (rule mult_left_mono)
  have m3: "s * cs \<le> s * 1"
    using csb(2) s0 by (rule mult_left_mono)
  have m4: "s * (- 1) \<le> s * cs"
    using csb(1) s0 by (rule mult_left_mono)
  have e: "haversine a b = (1 - (1 - s) * cd + s * cs) / 2"
    unfolding h by (simp add: field_simps)
  show ?thesis
    unfolding e using m1 m2 m3 m4 by simp
qed

text \<open>
  Claim C9. The distance from a point to itself is 0, the distance is symmetric, and for
  any two points it is a real number of kilometres between 0 and half the circumference
  of the earth, namely the angle whose half has the haversine term as its squared sine,
  times the earth radius.
\<close>

theorem distanceKm_metric_facts:
  "distanceKm p p = 0
   \<and> distanceKm a b = distanceKm b a
   \<and> 0 \<le> distanceKm a b
   \<and> distanceKm a b \<le> earthRadiusKm * pi
   \<and> (sin (distanceKm a b / (2 * earthRadiusKm)))\<^sup>2 = haversine a b"
proof -
  let ?h = "haversine a b"
  have same: "distanceKm p p = 0"
    by (simp add: distanceKm_def haversine_same)
  have sym: "distanceKm a b = distanceKm b a"
    by (simp add: distanceKm_def haversine_sym[of a b])
  have h0: "0 \<le> ?h" and h1: "?h \<le> 1"
    using haversine_range[of a b] by simp_all
  have r0: "0 \<le> sqrt ?h"
    using h0 by simp
  have r1: "sqrt ?h \<le> 1"
    using h1 by simp
  have rm: "- 1 \<le> sqrt ?h"
    using r0 by linarith
  have a0: "0 \<le> arcsin (sqrt ?h)"
    using r0 r1 arcsin_le_arcsin[of 0 "sqrt ?h"] by simp
  have a1: "arcsin (sqrt ?h) \<le> pi / 2"
    using rm r1 by (rule arcsin_ubound)
  have s: "sin (arcsin (sqrt ?h)) = sqrt ?h"
    using rm r1 by (rule sin_arcsin)
  have lo: "0 \<le> distanceKm a b"
    using a0 by (simp add: distanceKm_def earthRadiusKm_def)
  have hi: "distanceKm a b \<le> earthRadiusKm * pi"
    using a1 by (simp add: distanceKm_def earthRadiusKm_def)
  have inv: "(sin (distanceKm a b / (2 * earthRadiusKm)))\<^sup>2 = ?h"
    using s h0 by (simp add: distanceKm_def earthRadiusKm_def)
  show ?thesis using same sym lo hi inv by simp
qed

section \<open>Properties of applyRanking\<close>

subsection \<open>The sort\<close>

lemma set_js_insort: "set (js_insort cmp x ys) = insert x (set ys)"
  by (induction ys) auto

lemma set_js_sort: "set (js_sort cmp xs) = set xs"
  by (induction xs) (auto simp: js_sort_def set_js_insort)

lemma length_js_insort: "length (js_insort cmp x ys) = Suc (length ys)"
  by (induction ys) auto

lemma length_js_sort: "length (js_sort cmp xs) = length xs"
  by (induction xs) (auto simp: js_sort_def length_js_insort)

lemma distinct_js_insort: "distinct (js_insort cmp x ys) = (x \<notin> set ys \<and> distinct ys)"
  by (induction ys) (auto simp: set_js_insort)

lemma distinct_js_sort: "distinct (js_sort cmp xs) = distinct xs"
  by (induction xs) (auto simp: js_sort_def distinct_js_insort set_js_sort[unfolded js_sort_def])



text \<open>The sort is stable: parks that the comparator does not order keep their order.\<close>

lemma filter_js_insort:
  assumes "P x \<Longrightarrow> \<forall>y \<in> set ys. P y \<longrightarrow> \<not> cmp_positive (cmp x y)"
  shows "filter P (js_insort cmp x ys) = (if P x then x # filter P ys else filter P ys)"
  using assms by (induction ys) auto

lemma js_sort_stable:
  assumes "\<forall>x \<in> set xs. \<forall>y \<in> set xs. P x \<and> P y \<longrightarrow> \<not> cmp_positive (cmp x y)"
  shows "filter P (js_sort cmp xs) = filter P xs"
  using assms
proof (induction xs)
  case Nil
  then show ?case by (simp add: js_sort_def)
next
  case (Cons x xs)
  have ih: "filter P (js_sort cmp xs) = filter P xs"
    using Cons by simp
  have "filter P (js_insort cmp x (js_sort cmp xs))
      = (if P x then x # filter P (js_sort cmp xs) else filter P (js_sort cmp xs))"
    using Cons.prems by (intro filter_js_insort) (simp add: set_js_sort)
  then show ?case
    by (simp add: js_sort_def ih[unfolded js_sort_def])
qed

subsection \<open>Numbers\<close>





subsection \<open>The valid parks, sorted\<close>

lemma set_valid_sorted:
  "set (valid_sorted ps k order) = {r. r < length ps \<and> keep_valid (metric_of ps k r)}"
  by (auto simp: valid_sorted_def set_js_sort)

lemma distinct_valid_sorted: "distinct (valid_sorted ps k order)"
  by (simp add: valid_sorted_def distinct_js_sort)


lemma js_sub_same_not_positive: "\<not> cmp_positive (js_sub c c)"
  by (cases c) (simp_all add: cmp_positive_def)

lemma valid_sorted_stable:
  "filter (\<lambda>r. js_Number (metric_of ps k r) = c) (valid_sorted ps k order)
     = filter (\<lambda>r. js_Number (metric_of ps k r) = c)
         (filter (\<lambda>r. keep_valid (metric_of ps k r)) [0..<length ps])"
  unfolding valid_sorted_def
  by (rule js_sort_stable) (simp add: compare_parks_def js_sub_same_not_positive)

subsection \<open>The rank calculation\<close>

lemma fold_upt_Suc: "fold f [0..<Suc n] s = f n (fold f [0..<n] s)"
  by simp

lemma rank_step_frame:
  assumes "rank_step k rs n (cur, qs) = (cur', qs')"
  shows "length qs' = length qs"
    and "i < length qs \<Longrightarrow> qs' ! i = (qs ! i)\<lparr>displayRank := displayRank (qs' ! i)\<rparr>"
    and "i \<noteq> rs ! n \<Longrightarrow> qs' ! i = qs ! i"
proof -
  have q: "qs' = qs[rs ! n := (qs ! (rs ! n))\<lparr>displayRank := Some cur'\<rparr>]"
    using assms by (auto simp: rank_step_def Let_def)
  show "length qs' = length qs"
    by (simp add: q)
  show "qs' ! i = qs ! i" if "i \<noteq> rs ! n"
    using that by (simp add: q)
  show "qs' ! i = (qs ! i)\<lparr>displayRank := displayRank (qs' ! i)\<rparr>" if "i < length qs"
  proof (cases "i = rs ! n")
    case True
    then show ?thesis using that by (simp add: q)
  next
    case False
    then show ?thesis by (simp add: q)
  qed
qed

lemma rank_fold_frame:
  assumes "n \<le> length rs"
  shows "length (snd (fold (rank_step k rs) [0..<n] (c, ps))) = length ps
       \<and> (\<forall>i < length ps.
            snd (fold (rank_step k rs) [0..<n] (c, ps)) ! i
              = (ps ! i)\<lparr>displayRank := displayRank (snd (fold (rank_step k rs) [0..<n] (c, ps)) ! i)\<rparr>)
       \<and> (\<forall>i. i \<notin> set (take n rs) \<longrightarrow>
            snd (fold (rank_step k rs) [0..<n] (c, ps)) ! i = ps ! i)"
  using assms
proof (induction n)
  case 0
  then show ?case by simp
next
  case (Suc n)
  obtain cur qs where f: "fold (rank_step k rs) [0..<n] (c, ps) = (cur, qs)"
    by (cases "fold (rank_step k rs) [0..<n] (c, ps)")
  obtain cur' qs' where s: "rank_step k rs n (cur, qs) = (cur', qs')"
    by (cases "rank_step k rs n (cur, qs)")
  have F: "fold (rank_step k rs) [0..<Suc n] (c, ps) = (cur', qs')"
    using f s by simp
  have ih: "length qs = length ps"
    "\<And>i. i < length ps \<Longrightarrow> qs ! i = (ps ! i)\<lparr>displayRank := displayRank (qs ! i)\<rparr>"
    "\<And>i. i \<notin> set (take n rs) \<Longrightarrow> qs ! i = ps ! i"
    using Suc f by auto
  have tk: "set (take (Suc n) rs) = insert (rs ! n) (set (take n rs))"
    using Suc.prems by (simp add: take_Suc_conv_app_nth)
  have 1: "length qs' = length ps"
    using rank_step_frame(1)[OF s] ih(1) by simp
  have 2: "qs' ! i = (ps ! i)\<lparr>displayRank := displayRank (qs' ! i)\<rparr>" if "i < length ps" for i
  proof -
    have "qs' ! i = (qs ! i)\<lparr>displayRank := displayRank (qs' ! i)\<rparr>"
      using rank_step_frame(2)[OF s] that ih(1) by simp
    also have "\<dots> = ((ps ! i)\<lparr>displayRank := displayRank (qs ! i)\<rparr>)\<lparr>displayRank := displayRank (qs' ! i)\<rparr>"
      using ih(2)[OF that] by simp
    finally show ?thesis by simp
  qed
  have 3: "qs' ! i = ps ! i" if "i \<notin> set (take (Suc n) rs)" for i
    using rank_step_frame(3)[OF s, of i] ih(3)[of i] that tk by simp
  show ?case unfolding F using 1 2 3 by simp
qed

lemma assign_ranks_length: "length (assign_ranks k rs ps) = length ps"
  using rank_fold_frame[of "length rs" rs k 1 ps] by (simp add: assign_ranks_def)

lemma assign_ranks_frame:
  "i < length ps \<Longrightarrow> (assign_ranks k rs ps ! i)\<lparr>displayRank := displayRank (ps ! i)\<rparr> = ps ! i"
proof -
  assume "i < length ps"
  then have "assign_ranks k rs ps ! i
      = (ps ! i)\<lparr>displayRank := displayRank (assign_ranks k rs ps ! i)\<rparr>"
    using rank_fold_frame[of "length rs" rs k 1 ps] by (simp add: assign_ranks_def)
  then have "(assign_ranks k rs ps ! i)\<lparr>displayRank := displayRank (ps ! i)\<rparr>
      = ((ps ! i)\<lparr>displayRank := displayRank (assign_ranks k rs ps ! i)\<rparr>)\<lparr>displayRank := displayRank (ps ! i)\<rparr>"
    by simp
  then show ?thesis by simp
qed

lemma assign_ranks_metrics:
  "i < length ps \<Longrightarrow> metrics (assign_ranks k rs ps ! i) = metrics (ps ! i)"
proof -
  assume "i < length ps"
  then have "metrics ((assign_ranks k rs ps ! i)\<lparr>displayRank := displayRank (ps ! i)\<rparr>)
      = metrics (ps ! i)"
    by (simp only: assign_ranks_frame)
  then show ?thesis by simp
qed

lemma assign_ranks_untouched: "i \<notin> set rs \<Longrightarrow> assign_ranks k rs ps ! i = ps ! i"
  using rank_fold_frame[of "length rs" rs k 1 ps] by (simp add: assign_ranks_def)

lemma rank_fold_metrics:
  assumes "n \<le> length rs" and "i < length ps"
  shows "metrics (snd (fold (rank_step k rs) [0..<n] (c, ps)) ! i) = metrics (ps ! i)"
proof -
  let ?qs = "snd (fold (rank_step k rs) [0..<n] (c, ps))"
  have "?qs ! i = (ps ! i)\<lparr>displayRank := displayRank (?qs ! i)\<rparr>"
    using rank_fold_frame[OF assms(1), of k c ps] assms(2) by blast
  then have "metrics (?qs ! i) = metrics ((ps ! i)\<lparr>displayRank := displayRank (?qs ! i)\<rparr>)"
    by simp
  then show ?thesis by simp
qed

text \<open>What the first \<open>n\<close> steps of the rank calculation have written.\<close>

lemma rank_fold_ranks:
  assumes d: "distinct rs" and r: "\<forall>x \<in> set rs. x < length ps" and n: "n \<le> length rs"
  shows "(n = 0 \<longrightarrow> fst (fold (rank_step k rs) [0..<n] (1, ps)) = 1)
       \<and> (0 < n \<longrightarrow>
            displayRank (snd (fold (rank_step k rs) [0..<n] (1, ps)) ! (rs ! (n - 1)))
              = Some (fst (fold (rank_step k rs) [0..<n] (1, ps)))
            \<and> fst (fold (rank_step k rs) [0..<n] (1, ps)) \<le> n
            \<and> displayRank (snd (fold (rank_step k rs) [0..<n] (1, ps)) ! (rs ! 0)) = Some 1)
       \<and> (\<forall>j. Suc j < n \<longrightarrow>
            (\<exists>a. displayRank (snd (fold (rank_step k rs) [0..<n] (1, ps)) ! (rs ! j)) = Some a
               \<and> a \<le> Suc j
               \<and> displayRank (snd (fold (rank_step k rs) [0..<n] (1, ps)) ! (rs ! Suc j))
                   = Some (if js_strict_eq (metrics (ps ! (rs ! Suc j)) k) (metrics (ps ! (rs ! j)) k)
                           then a else j + 2)))"
  using n
proof (induction n)
  case 0
  then show ?case by simp
next
  case (Suc n)
  obtain cur qs where f: "fold (rank_step k rs) [0..<n] (1, ps) = (cur, qs)"
    by (cases "fold (rank_step k rs) [0..<n] (1, ps)")
  have nl: "n < length rs" and nle: "n \<le> length rs"
    using Suc.prems by simp_all
  have len: "length qs = length ps"
    using rank_fold_frame[OF nle, of k 1 ps] f by simp
  have met: "metrics (qs ! i) = metrics (ps ! i)" if "i < length ps" for i
    using rank_fold_metrics[OF nle that, of k 1] f by simp
  have inr: "rs ! j < length ps" if "j < length rs" for j
    using r that by simp
  let ?p = "rs ! n"
  define cur' where
    "cur' = (if 0 < n \<and> \<not> js_strict_eq (metrics (ps ! ?p) k) (metrics (ps ! (rs ! (n - 1))) k)
             then n + 1 else cur)"
  define qs' where "qs' = qs[?p := (qs ! ?p)\<lparr>displayRank := Some cur'\<rparr>]"
  have prev: "rs ! (n - 1) < length ps"
    using inr[of "n - 1"] nl by simp
  have step: "rank_step k rs n (cur, qs) = (cur', qs')"
    using met[OF inr[OF nl]] met[OF prev]
    by (simp add: rank_step_def Let_def cur'_def qs'_def)
  have F: "fold (rank_step k rs) [0..<Suc n] (1, ps) = (cur', qs')"
    using f step by simp
  have at_p: "displayRank (qs' ! ?p) = Some cur'"
    using inr[OF nl] len by (simp add: qs'_def)
  have other: "displayRank (qs' ! (rs ! j)) = displayRank (qs ! (rs ! j))" if "j < n" for j
  proof -
    have "rs ! j \<noteq> ?p"
      using d that nl by (simp add: nth_eq_iff_index_eq)
    then show ?thesis by (simp add: qs'_def)
  qed
  have ih0: "n = 0 \<longrightarrow> cur = 1"
    using f by auto
  have ih1: "0 < n \<longrightarrow> displayRank (qs ! (rs ! (n - 1))) = Some cur \<and> cur \<le> n
                \<and> displayRank (qs ! (rs ! 0)) = Some 1"
    and ih2: "\<forall>j. Suc j < n \<longrightarrow>
            (\<exists>a. displayRank (qs ! (rs ! j)) = Some a \<and> a \<le> Suc j
               \<and> displayRank (qs ! (rs ! Suc j))
                   = Some (if js_strict_eq (metrics (ps ! (rs ! Suc j)) k) (metrics (ps ! (rs ! j)) k)
                           then a else j + 2))"
    using Suc.IH[OF nle] f by simp_all
  have c1: "displayRank (qs' ! (rs ! (Suc n - 1))) = Some cur'"
    using at_p by simp
  have c2: "cur' \<le> Suc n"
    using ih0 ih1 by (auto simp: cur'_def)
  have c3: "displayRank (qs' ! (rs ! 0)) = Some 1"
  proof (cases "n = 0")
    case True
    then show ?thesis using at_p ih0 by (simp add: cur'_def)
  next
    case False
    then show ?thesis using other[of 0] ih1 by simp
  qed
  have c4: "\<exists>a. displayRank (qs' ! (rs ! j)) = Some a \<and> a \<le> Suc j
               \<and> displayRank (qs' ! (rs ! Suc j))
                   = Some (if js_strict_eq (metrics (ps ! (rs ! Suc j)) k) (metrics (ps ! (rs ! j)) k)
                           then a else j + 2)"
    if j: "Suc j < Suc n" for j
  proof (cases "Suc j < n")
    case True
    then show ?thesis using ih2 other[of j] other[of "Suc j"] by simp
  next
    case False
    then have e: "n = Suc j" using j by simp
    have a: "displayRank (qs' ! (rs ! j)) = Some cur" and b: "cur \<le> Suc j"
      using ih1 other[of j] e by simp_all
    have "displayRank (qs' ! (rs ! Suc j))
        = Some (if js_strict_eq (metrics (ps ! (rs ! Suc j)) k) (metrics (ps ! (rs ! j)) k)
                then cur else j + 2)"
      using at_p e by (simp add: cur'_def)
    then show ?thesis using a b by blast
  qed
  show ?case
    unfolding F using c1 c2 c3 c4 by simp
qed

subsection \<open>The selection\<close>

lemma set_select_top: "set (select_top ps k order n valid) \<subseteq> set valid"
  by (auto simp: select_top_def Let_def)

lemma distinct_select_top: "distinct valid \<Longrightarrow> distinct (select_top ps k order n valid)"
  by (auto simp: select_top_def Let_def)

lemma applyRanking_Ranked:
  assumes "applyRanking st type numInput = (Ranked rs, st')"
  shows "\<exists>n. type \<noteq> [] \<and> numInput \<noteq> [] \<and> parseInt numInput = Some n \<and> 1 \<le> n
           \<and> rs = select_top (parks st) (dataKey type) (rank_order type) n
                    (valid_sorted (parks st) (dataKey type) (rank_order type))
           \<and> rs \<noteq> []
           \<and> parks st' = assign_ranks (dataKey type) rs (parks st)
           \<and> currentExportData st' = ExportParks rs"
  using assms
  by (auto simp: applyRanking_def Let_def split: if_splits option.splits)

lemma ranked_members:
  assumes "applyRanking st type numInput = (Ranked rs, st')"
  shows "distinct rs"
    and "\<forall>r \<in> set rs. r < length (parks st) \<and> keep_valid (metric_of (parks st) (dataKey type) r)"
proof -
  from applyRanking_Ranked[OF assms] obtain n where
    rs: "rs = select_top (parks st) (dataKey type) (rank_order type) n
               (valid_sorted (parks st) (dataKey type) (rank_order type))"
    by blast
  show "distinct rs"
    unfolding rs by (rule distinct_select_top) (rule distinct_valid_sorted)
  show "\<forall>r \<in> set rs. r < length (parks st) \<and> keep_valid (metric_of (parks st) (dataKey type) r)"
    using set_select_top[of "parks st" "dataKey type" "rank_order type" n
        "valid_sorted (parks st) (dataKey type) (rank_order type)"]
    unfolding rs set_valid_sorted by blast
qed

lemma ranked_metrics:
  assumes "applyRanking st type numInput = (Ranked rs, st')" and "r < length (parks st)"
  shows "metrics (parks st' ! r) = metrics (parks st ! r)"
proof -
  from applyRanking_Ranked[OF assms(1)]
  have "parks st' = assign_ranks (dataKey type) rs (parks st)"
    by blast
  then show ?thesis using assign_ranks_metrics[OF assms(2)] by simp
qed

subsection \<open>The cutoff\<close>












lemma keep_valid_cases:
  "keep_valid v =
     (case v of JUndefined \<Rightarrow> False | JNull \<Rightarrow> False | JBool b \<Rightarrow> True
              | JNum x \<Rightarrow> x \<noteq> NaN | JStr s \<Rightarrow> StringToNumber s \<noteq> NaN)"
  by (cases v; cases "js_Number v") (auto simp: keep_valid_def split: jsval.splits)

lemma select_top_all: "int (length valid) \<le> n \<Longrightarrow> select_top ps k order n valid = valid"
  by (simp add: select_top_def)

subsection \<open>Runs on the small catalogues\<close>

lemma scenario_rank_lowest:
  "fst (applyRanking scenario_state ''quality_lowest'' ''4'') = Ranked [2, 0, 1]"
  by code_simp

lemma scenario_rank_top3:
  "fst (applyRanking scenario_state ''quality_highest'' ''3'') = Ranked [0, 1, 2]"
  by code_simp

lemma scenario_rank_top1:
  "fst (applyRanking scenario_state ''quality_highest'' ''1'') = Ranked [0, 1]"
  by code_simp

lemma scenario_length: "length (parks scenario_state) = 4"
  by (simp add: scenario_state_def)








lemma scenario_loose_rank:
  "fst (applyRanking scenario_loose_state ''quality_highest'' ''7'') = Ranked [3, 0, 1, 2]"
  by code_simp

text \<open>
  Claim C3, as the code has it. Every park in the result of \<open>applyRanking\<close> has a value
  for the active metric that \<^verbatim>\<open>Number\<close> reads as a number: a number other than
  \<open>NaN\<close>, a boolean, or a text that \<^verbatim>\<open>Number\<close> converts. A park whose value is
  \<^verbatim>\<open>null\<close>, absent, \<open>NaN\<close> or a text that \<^verbatim>\<open>Number\<close> cannot read is never in
  the result. With a limit of at least the size of the catalogue the result holds
  exactly the parks of the first kind.
\<close>

theorem rank_excludes_unreadable:
  assumes "applyRanking st type numInput = (Ranked rs, st')"
  shows "length (parks st') = length (parks st)
       \<and> (\<forall>r \<in> set rs. r < length (parks st') \<and>
            (case metrics (parks st' ! r) (dataKey type) of
               JUndefined \<Rightarrow> False | JNull \<Rightarrow> False | JBool b \<Rightarrow> True
             | JNum x \<Rightarrow> x \<noteq> NaN | JStr s \<Rightarrow> StringToNumber s \<noteq> NaN))
       \<and> (\<forall>n. parseInt numInput = Some n \<and> int (length (parks st)) \<le> n \<longrightarrow>
            set rs = {r. r < length (parks st') \<and>
              (case metrics (parks st' ! r) (dataKey type) of
                 JUndefined \<Rightarrow> False | JNull \<Rightarrow> False | JBool b \<Rightarrow> True
               | JNum x \<Rightarrow> x \<noteq> NaN | JStr s \<Rightarrow> StringToNumber s \<noteq> NaN)})"
proof -
  let ?k = "dataKey type" and ?ps = "parks st"
  let ?valid = "valid_sorted ?ps ?k (rank_order type)"
  have l: "length (parks st') = length ?ps"
    using applyRanking_Ranked[OF assms] by (auto simp: assign_ranks_length)
  have e: "metrics (parks st' ! r) ?k = metric_of ?ps ?k r" if "r < length ?ps" for r
    using ranked_metrics[OF assms that] by (simp add: metric_of_def)
  have a: "r < length (parks st') \<and>
            (case metrics (parks st' ! r) ?k of
               JUndefined \<Rightarrow> False | JNull \<Rightarrow> False | JBool b \<Rightarrow> True
             | JNum x \<Rightarrow> x \<noteq> NaN | JStr s \<Rightarrow> StringToNumber s \<noteq> NaN)" if "r \<in> set rs" for r
  proof -
    have m: "r < length ?ps" and v: "keep_valid (metric_of ?ps ?k r)"
      using ranked_members(2)[OF assms] that by auto
    show ?thesis using m l v unfolding e[OF m] keep_valid_cases by simp
  qed
  have b: "set rs = {r. r < length (parks st') \<and>
              (case metrics (parks st' ! r) ?k of
                 JUndefined \<Rightarrow> False | JNull \<Rightarrow> False | JBool b \<Rightarrow> True
               | JNum x \<Rightarrow> x \<noteq> NaN | JStr s \<Rightarrow> StringToNumber s \<noteq> NaN)}"
    if p: "parseInt numInput = Some n" and n: "int (length ?ps) \<le> n" for n
  proof -
    from applyRanking_Ranked[OF assms] p
    have rs: "rs = select_top ?ps ?k (rank_order type) n ?valid"
      by auto
    have "length ?valid \<le> length ?ps"
      using distinct_card[OF distinct_valid_sorted[of ?ps ?k "rank_order type"]]
        card_mono[of "{..<length ?ps}" "set ?valid"]
      by (auto simp: set_valid_sorted)
    then have "rs = ?valid"
      using n unfolding rs by (intro select_top_all) simp
    then have "set rs = {r. r < length ?ps \<and> keep_valid (metric_of ?ps ?k r)}"
      by (simp add: set_valid_sorted)
    also have "\<dots> = {r. r < length (parks st') \<and>
              (case metrics (parks st' ! r) ?k of
                 JUndefined \<Rightarrow> False | JNull \<Rightarrow> False | JBool b \<Rightarrow> True
               | JNum x \<Rightarrow> x \<noteq> NaN | JStr s \<Rightarrow> StringToNumber s \<noteq> NaN)}"
      using e l by (auto simp: keep_valid_cases)
    finally show ?thesis .
  qed
  show ?thesis using l a b by blast
qed

theorem rank_excludes_unreadable_witness:
  "fst (applyRanking scenario_loose_state ''quality_highest'' ''7'') = Ranked [3, 0, 1, 2]
   \<and> set [3, 0, 1, 2 :: nat] =
       {r. r < length (parks (snd (applyRanking scenario_loose_state ''quality_highest'' ''7''))) \<and>
          (case metrics (parks (snd (applyRanking scenario_loose_state ''quality_highest'' ''7'')) ! r)
                  (dataKey ''quality_highest'') of
             JUndefined \<Rightarrow> False | JNull \<Rightarrow> False | JBool b \<Rightarrow> True
           | JNum x \<Rightarrow> x \<noteq> NaN | JStr s \<Rightarrow> StringToNumber s \<noteq> NaN)}
   \<and> metrics (parks scenario_loose_state ! 4) ''quality'' = JStr ''unknown''
   \<and> StringToNumber ''unknown'' = NaN
   \<and> metrics (parks scenario_loose_state ! 5) ''quality'' = JNull
   \<and> metrics (parks scenario_loose_state ! 6) ''quality'' = JUndefined"
proof -
  let ?r = "applyRanking scenario_loose_state ''quality_highest'' ''7''"
  have e: "?r = (Ranked [3, 0, 1, 2], snd ?r)"
    using scenario_loose_rank by (metis prod.collapse)
  have p: "parseInt ''7'' = Some 7" by code_simp
  have n: "int (length (parks scenario_loose_state)) \<le> 7"
    by (simp add: scenario_loose_state_def)
  have d: "metrics (parks scenario_loose_state ! 4) ''quality'' = JStr ''unknown''"
    "metrics (parks scenario_loose_state ! 5) ''quality'' = JNull"
    "metrics (parks scenario_loose_state ! 6) ''quality'' = JUndefined"
    by (simp_all add: scenario_loose_state_def scenario_park_def)
  have u: "StringToNumber ''unknown'' = NaN" by code_simp
  show ?thesis
    using rank_excludes_unreadable[OF e] scenario_loose_rank p n d u by blast
qed

text \<open>
  Ranking the catalogue with scores of every kind: the parks whose quality is
  \<^verbatim>\<open>true\<close>, the empty text and the blank text are ranked, as 1, 0 and 0.
\<close>

theorem rank_keeps_blank_and_boolean:
  "fst (applyRanking scenario_loose_state ''quality_highest'' ''7'') = Ranked [3, 0, 1, 2]
   \<and> map (\<lambda>r. metrics (parks scenario_loose_state ! r) ''quality'') [0, 1, 2]
       = [JBool True, JStr '''', JStr ''  '']
   \<and> map (\<lambda>r. js_Number (metrics (parks scenario_loose_state ! r) ''quality'')) [0, 1, 2]
       = [Fin 1, Fin 0, Fin 0]"
proof -
  have a: "map (\<lambda>r. metrics (parks scenario_loose_state ! r) ''quality'') [0, 1, 2]
       = [JBool True, JStr '''', JStr ''  '']"
    by (simp add: scenario_loose_state_def scenario_park_def)
  have b: "map (\<lambda>r. js_Number (metrics (parks scenario_loose_state ! r) ''quality'')) [0, 1, 2]
       = [Fin 1, Fin 0, Fin 0]"
    by code_simp
  show ?thesis using scenario_loose_rank a b by simp
qed

text \<open>
  Claim C2. In a ranked result the first park has \<open>displayRank\<close> 1, and for neighbours at
  positions \<open>i\<close> and \<open>i + 1\<close> (counted from 0) the second has the rank of the first
  exactly when their metric values are equal (\<^verbatim>\<open>===\<close>), and otherwise it has the rank
  \<open>i + 2\<close>, which is its position counted from 1.
\<close>

theorem rank_dense_ranks:
  assumes "applyRanking st type numInput = (Ranked rs, st')"
  shows "rs \<noteq> []
       \<and> displayRank (parks st' ! (rs ! 0)) = Some 1
       \<and> (\<forall>i. Suc i < length rs \<longrightarrow>
            (\<exists>a b. displayRank (parks st' ! (rs ! i)) = Some a
               \<and> displayRank (parks st' ! (rs ! Suc i)) = Some b
               \<and> (b = a) = js_strict_eq (metrics (parks st' ! (rs ! Suc i)) (dataKey type))
                                        (metrics (parks st' ! (rs ! i)) (dataKey type))
               \<and> (b \<noteq> a \<longrightarrow> b = i + 2)))"
proof -
  let ?k = "dataKey type" and ?ps = "parks st"
  from applyRanking_Ranked[OF assms]
  have ne: "rs \<noteq> []" and p: "parks st' = assign_ranks ?k rs ?ps"
    by blast+
  have d: "distinct rs" and r: "\<forall>x \<in> set rs. x < length ?ps"
    using ranked_members[OF assms] by auto
  have len: "0 < length rs" using ne by simp
  have fold_snd: "snd (fold (rank_step ?k rs) [0..<length rs] (1, ?ps)) = parks st'"
    by (simp add: p assign_ranks_def)
  have first: "displayRank (parks st' ! (rs ! 0)) = Some 1"
    using rank_fold_ranks[OF d r order_refl, of ?k] len unfolding fold_snd by simp
  have pair: "\<exists>a b. displayRank (parks st' ! (rs ! i)) = Some a
               \<and> displayRank (parks st' ! (rs ! Suc i)) = Some b
               \<and> (b = a) = js_strict_eq (metrics (parks st' ! (rs ! Suc i)) ?k)
                                        (metrics (parks st' ! (rs ! i)) ?k)
               \<and> (b \<noteq> a \<longrightarrow> b = i + 2)"
    if i: "Suc i < length rs" for i
  proof -
    have ri: "rs ! i < length ?ps" and rsi: "rs ! Suc i < length ?ps"
      using r i by simp_all
    have mi: "metrics (parks st' ! (rs ! i)) = metrics (?ps ! (rs ! i))"
      and msi: "metrics (parks st' ! (rs ! Suc i)) = metrics (?ps ! (rs ! Suc i))"
      using ranked_metrics[OF assms ri] ranked_metrics[OF assms rsi] by simp_all
    from rank_fold_ranks[OF d r order_refl, of ?k] i
    obtain a where a: "displayRank (parks st' ! (rs ! i)) = Some a" and le: "a \<le> Suc i"
      and b: "displayRank (parks st' ! (rs ! Suc i))
                = Some (if js_strict_eq (metrics (?ps ! (rs ! Suc i)) ?k) (metrics (?ps ! (rs ! i)) ?k)
                        then a else i + 2)"
      unfolding fold_snd by blast
    show ?thesis
      unfolding mi msi using a b le by auto
  qed
  show ?thesis using ne first pair by blast
qed

theorem rank_dense_ranks_witness:
  "displayRank (parks (snd (applyRanking scenario_state ''quality_highest'' ''3'')) ! 0) = Some 1
   \<and> map displayRank (parks (snd (applyRanking scenario_state ''quality_highest'' ''3'')))
       = [Some 1, Some 1, Some 3, None]"
proof -
  let ?r = "applyRanking scenario_state ''quality_highest'' ''3''"
  have e: "?r = (Ranked [0, 1, 2], snd ?r)"
    using scenario_rank_top3 by (metis prod.collapse)
  have "displayRank (parks (snd ?r) ! ([0, 1, 2] ! 0)) = Some 1"
    using rank_dense_ranks[OF e] by blast
  moreover have "map displayRank (parks (snd ?r)) = [Some 1, Some 1, Some 3, None]"
    by code_simp
  ultimately show ?thesis by simp
qed




text \<open>
  Claim C6, as the code has it. \<open>applyRanking\<close> keeps the catalogue's length and order
  and every field of every park other than \<open>displayRank\<close>; a park that is not in the
  ranked result is left as it was. \<open>applyLocationSearch\<close> leaves the catalogue as it was.
\<close>

theorem engines_leave_other_fields:
  "length (parks (snd (applyRanking st type numInput))) = length (parks st)
   \<and> (\<forall>i < length (parks st).
        (parks (snd (applyRanking st type numInput)) ! i)\<lparr>displayRank := displayRank (parks st ! i)\<rparr>
          = parks st ! i)
   \<and> (\<forall>i. (\<forall>rs. fst (applyRanking st type numInput) = Ranked rs \<longrightarrow> i \<notin> set rs) \<longrightarrow>
        parks (snd (applyRanking st type numInput)) ! i = parks st ! i)
   \<and> parks (fst (snd (applyLocationSearch geocode backend st pc rd sel))) = parks st"
proof -
  have search: "parks (fst (snd (applyLocationSearch geocode backend st pc rd sel))) = parks st"
    by (simp add: applyLocationSearch_def Let_def split_beta show_matches_def
        split: fetched.splits list.splits)
  show ?thesis
  proof (cases "\<exists>rs. fst (applyRanking st type numInput) = Ranked rs")
    case True
    then obtain rs where f: "fst (applyRanking st type numInput) = Ranked rs"
      by blast
    then have e: "applyRanking st type numInput = (Ranked rs, snd (applyRanking st type numInput))"
      by (metis prod.collapse)
    from applyRanking_Ranked[OF e]
    have p: "parks (snd (applyRanking st type numInput)) = assign_ranks (dataKey type) rs (parks st)"
      by blast
    show ?thesis
      unfolding p using search f
      by (simp add: assign_ranks_length assign_ranks_frame assign_ranks_untouched)
  next
    case False
    then have "parks (snd (applyRanking st type numInput)) = parks st"
      by (auto simp: applyRanking_def Let_def split: if_splits option.splits)
    then show ?thesis using search by simp
  qed
qed

theorem engines_leave_other_fields_witness:
  "parks (snd (applyRanking scenario_state ''quality_highest'' ''1'')) ! 2 = parks scenario_state ! 2
   \<and> length (parks (snd (applyRanking scenario_state ''quality_highest'' ''1''))) = 4"
proof -
  let ?r = "applyRanking scenario_state ''quality_highest'' ''1''"
  have "\<forall>rs. fst ?r = Ranked rs \<longrightarrow> 2 \<notin> set rs"
    by (simp add: scenario_rank_top1)
  then show ?thesis
    using engines_leave_other_fields[of scenario_state "''quality_highest''" "''1''"]
      scenario_length by simp
qed

text \<open>
  Ranking the small catalogue by quality with limit 1 writes rank 1 into parks A and B:
  the catalogue afterwards differs from the catalogue before.
\<close>

theorem rank_writes_displayRank:
  "map displayRank (parks scenario_state) = [None, None, None, None]
   \<and> map displayRank (parks (snd (applyRanking scenario_state ''quality_highest'' ''1'')))
       = [Some 1, Some 1, None, None]
   \<and> parks (snd (applyRanking scenario_state ''quality_highest'' ''1'')) \<noteq> parks scenario_state"
proof -
  have a: "map displayRank (parks scenario_state) = [None, None, None, None]"
    by code_simp
  have b: "map displayRank (parks (snd (applyRanking scenario_state ''quality_highest'' ''1'')))
       = [Some 1, Some 1, None, None]"
    by code_simp
  have "parks (snd (applyRanking scenario_state ''quality_highest'' ''1'')) \<noteq> parks scenario_state"
  proof
    assume "parks (snd (applyRanking scenario_state ''quality_highest'' ''1'')) = parks scenario_state"
    then have "[Some 1, Some 1, None, None] = [None, None, None, None :: nat option]"
      using a b by simp
    then show False by simp
  qed
  then show ?thesis using a b by simp
qed

text \<open>
  Claim C7, as the code has it. With a rank type selected, \<open>applyRanking\<close> asks for a rank
  number exactly when the text of the rank-number input is empty or \<^verbatim>\<open>parseInt\<close> of
  it is \<open>NaN\<close> or less than 1; the state is then the state before with the export data
  emptied. Any other text is accepted and ranked with the whole number that
  \<^verbatim>\<open>parseInt\<close> reads from its start, and the export data is the result.
\<close>

theorem limit_rejected_iff:
  assumes "type \<noteq> []"
  shows "(fst (applyRanking st type numInput) = EnterRankNumModal) =
           (numInput = [] \<or> parseInt numInput = None \<or> (\<exists>n. parseInt numInput = Some n \<and> n < 1))
         \<and> (fst (applyRanking st type numInput) = EnterRankNumModal \<longrightarrow>
               snd (applyRanking st type numInput) = st\<lparr>currentExportData := ExportParks []\<rparr>)
         \<and> (\<forall>n. numInput \<noteq> [] \<and> parseInt numInput = Some n \<and> 1 \<le> n \<longrightarrow>
               fst (applyRanking st type numInput) =
                 (let topResults = select_top (parks st) (dataKey type) (rank_order type) n
                                     (valid_sorted (parks st) (dataKey type) (rank_order type))
                  in if topResults = [] then NoDataToast else Ranked topResults)
               \<and> currentExportData (snd (applyRanking st type numInput)) =
                   ExportParks (select_top (parks st) (dataKey type) (rank_order type) n
                                  (valid_sorted (parks st) (dataKey type) (rank_order type))))"
  using assms by (auto simp: applyRanking_def Let_def split: option.splits)

theorem limit_rejected_iff_witness:
  "fst (applyRanking scenario_state ''quality_highest'' ''0.9'') = EnterRankNumModal
   \<and> currentExportData scenario_state = ExportParks [0, 1, 2, 3]
   \<and> currentExportData (snd (applyRanking scenario_state ''quality_highest'' ''0.9'')) = ExportParks []
   \<and> parseInt ''3.7'' = Some 3
   \<and> fst (applyRanking scenario_state ''quality_highest'' ''3.7'') =
       (let topResults = select_top (parks scenario_state) (dataKey ''quality_highest'')
                           (rank_order ''quality_highest'') 3
                           (valid_sorted (parks scenario_state) (dataKey ''quality_highest'')
                              (rank_order ''quality_highest''))
        in if topResults = [] then NoDataToast else Ranked topResults)"
proof -
  have t: "''quality_highest'' \<noteq> []" by simp
  have a: "parseInt ''0.9'' = Some 0" by code_simp
  have b: "parseInt ''3.7'' = Some 3" by code_simp
  have c: "currentExportData scenario_state = ExportParks [0, 1, 2, 3]"
    by (simp add: scenario_state_def)
  show ?thesis
    using limit_rejected_iff[OF t, of scenario_state "''0.9''"]
      limit_rejected_iff[OF t, of scenario_state "''3.7''"] a b c
    by simp
qed

text \<open>
  The rank number 3.7 is not turned away: the ranking runs as it does for 3 and
  returns three parks.
\<close>

theorem limit_fraction_accepted:
  "fst (applyRanking scenario_state ''quality_highest'' ''3.7'') = Ranked [0, 1, 2]
   \<and> fst (applyRanking scenario_state ''quality_highest'' ''3'') = Ranked [0, 1, 2]"
  by code_simp

end
